theory Spec2Isabelle
  imports Complex_Main "HOL-Library.Log_Nat"
begin

section \<open>Shared primitives of the three generator scripts\<close>

text \<open>
  The scripts draw from two process-global generators: Python's \<open>random\<close> module and
  numpy's global state (used by \<open>np.random.choice\<close> and by pandas' \<open>DataFrame.sample\<close>).
  A generator is modelled by the infinite stream of raw draws it will hand out; every
  library call consumes the head of the stream and maps it into the range the call
  documents. The concrete bit-level algorithm is not modelled, so every theorem below
  holds for every stream, in particular for the one a given seed produces.

  A float is modelled by the rational number it denotes. In Stage 2 the arithmetic on
  amounts and on the daily order count is that of IEEE doubles: every operation returns
  the double nearest to the exact result, ties to even (\<open>fl\<close> below), and \<open>round(x, 2)\<close>
  is Python's: the exact value of \<open>x\<close> rounded to the nearest hundredth, ties to even,
  and then to the nearest double. Elsewhere (the draws of \<open>random.random\<close>, the restaurant
  ratings of Stage 1, the target of abandoned carts) float expressions are taken over the
  exact rationals. Timestamps are whole minutes since 2024-01-01 00:00, which is a Monday.
\<close>

datatype py_error = ValueError | IndexError | ZeroDivisionError | FileNotFoundError string

type_synonym rng = "nat \<Rightarrow> nat"

type_synonym datetime = int

definition and_then :: "py_error + 'a \<Rightarrow> ('a \<Rightarrow> py_error + 'b) \<Rightarrow> py_error + 'b" where
  "and_then m f = (case m of Inl e \<Rightarrow> Inl e | Inr x \<Rightarrow> f x)"

definition draw :: "rng \<Rightarrow> nat \<times> rng" where
  "draw g = (g 0, \<lambda>i. g (Suc i))"

text \<open>\<open>random.random()\<close>: a 53-bit integer divided by \<open>2^53\<close>, hence in \<open>[0, 1)\<close>.\<close>

definition random :: "rng \<Rightarrow> rat \<times> rng" where
  "random g = (case draw g of (d, g') \<Rightarrow> (of_nat (d mod 9007199254740992) / 9007199254740992, g'))"

text \<open>\<open>random.uniform(a, b)\<close> is \<open>a + (b - a) * random()\<close>.\<close>

definition uniform :: "rat \<Rightarrow> rat \<Rightarrow> rng \<Rightarrow> rat \<times> rng" where
  "uniform a b g = (case random g of (u, g') \<Rightarrow> (a + (b - a) * u, g'))"

text \<open>
  \<open>random.randint(a, b)\<close> for \<open>a \<le> b\<close>. Python raises \<open>ValueError\<close> on an empty range;
  the one call site whose bounds are computed writes that branch out itself.
\<close>

definition randint :: "int \<Rightarrow> int \<Rightarrow> rng \<Rightarrow> int \<times> rng" where
  "randint a b g = (case draw g of (d, g') \<Rightarrow> (a + int d mod (b - a + 1), g'))"

text \<open>\<open>random.choice(seq)\<close>: \<open>IndexError\<close> on an empty sequence.\<close>

definition choice :: "'a list \<Rightarrow> rng \<Rightarrow> py_error + ('a \<times> rng)" where
  "choice xs g =
     (if xs = [] then Inl IndexError
      else (case draw g of (d, g') \<Rightarrow> Inr (xs ! (d mod length xs), g')))"

text \<open>
  \<open>df.sample(n)\<close>: \<open>n\<close> rows without replacement, in drawn order; \<open>ValueError\<close> when the
  frame has fewer than \<open>n\<close> rows.
\<close>

fun sample_n :: "'a list \<Rightarrow> nat \<Rightarrow> rng \<Rightarrow> py_error + ('a list \<times> rng)" where
  "sample_n xs 0 g = Inr ([], g)"
| "sample_n xs (Suc n) g =
     (if xs = [] then Inl ValueError
      else (case draw g of (d, g') \<Rightarrow>
        (let i = d mod length xs in
         and_then (sample_n (take i xs @ drop (Suc i) xs) n g')
           (\<lambda>(ys, g''). Inr (xs ! i # ys, g'')))))"

text \<open>\<open>df.sample(1).iloc[0]\<close>.\<close>

definition sample1 :: "'a list \<Rightarrow> rng \<Rightarrow> py_error + ('a \<times> rng)" where
  "sample1 xs g =
     (if xs = [] then Inl ValueError
      else (case draw g of (d, g') \<Rightarrow> Inr (xs ! (d mod length xs), g')))"

text \<open>\<open>int(x)\<close> truncates towards zero.\<close>

definition py_int :: "rat \<Rightarrow> int" where
  "py_int x = (if 0 \<le> x then \<lfloor>x\<rfloor> else \<lceil>x\<rceil>)"

definition round_half_even :: "rat \<Rightarrow> int" where
  "round_half_even y =
     (let f = \<lfloor>y\<rfloor>; d = y - of_int f in
      if d < 1 / 2 then f else if 1 / 2 < d then f + 1 else if even f then f else f + 1)"

definition round2 :: "rat \<Rightarrow> rat" where
  "round2 x = of_int (round_half_even (x * 100)) / 100"

text \<open>
  Doubles. \<open>ilog2 x\<close> is the exponent \<open>e\<close> with \<open>2^e \<le> x < 2^(e+1)\<close> of a positive \<open>x\<close>, and
  \<open>fl x\<close> the nearest number with a 53-bit significand, ties to even. The exponent range
  is not bounded: the amounts of the generators are far from overflow and underflow.
\<close>

definition pow2 :: "int \<Rightarrow> rat" where
  "pow2 e = (if 0 \<le> e then 2 ^ nat e else 1 / 2 ^ nat (- e))"

definition ilog2 :: "rat \<Rightarrow> int" where
  "ilog2 x = (case quotient_of x of (p, q) \<Rightarrow>
                let d = bitlen p - bitlen q in if pow2 d \<le> x then d else d - 1)"

definition fl :: "rat \<Rightarrow> rat" where
  "fl x = (if x = 0 then 0
           else let e = ilog2 \<bar>x\<bar> - 52 in of_int (round_half_even (x / pow2 e)) * pow2 e)"

definition fadd :: "rat \<Rightarrow> rat \<Rightarrow> rat" where
  "fadd a b = fl (a + b)"

definition fsub :: "rat \<Rightarrow> rat \<Rightarrow> rat" where
  "fsub a b = fl (a - b)"

definition fmul :: "rat \<Rightarrow> rat \<Rightarrow> rat" where
  "fmul a b = fl (a * b)"

text \<open>\<open>a / b\<close> of two ints, which Python rounds correctly.\<close>

definition int_truediv :: "int \<Rightarrow> int \<Rightarrow> rat" where
  "int_truediv a b = fl (of_int a / of_int b)"

text \<open>\<open>round(x, 2)\<close> of a float.\<close>

definition py_round2 :: "rat \<Rightarrow> rat" where
  "py_round2 x = fl (round2 x)"

section \<open>Stage 2: orders and delivery tracking (generate\_data\_02.py)\<close>

record order =
  o_OrderID :: int
  o_UserID :: int
  o_RestaurantID :: int
  o_OrderTime :: datetime
  o_OrderDate :: int
  o_OrderDay :: string
  o_OrderHour :: int
  o_TotalAmount :: rat
  o_DeliveryFee :: rat
  o_DiscountAmount :: rat
  o_FinalAmount :: rat
  o_OrderStatus :: string
  o_DeliveryAddress :: string
  o_PaymentMethod :: string

record delivery =
  d_DeliveryID :: int
  d_OrderID :: int
  d_DispatchTime :: datetime
  d_EstimatedDeliveryTime :: datetime
  d_ActualDeliveryTime :: datetime
  d_ActualDeliveryMinutes :: int
  d_DeliveryPartnerID :: int
  d_DeliveryStatus :: string

text \<open>The body of the loop of \<open>generate_delivery_tracking\<close> for one Delivered order.\<close>

definition delivery_row :: "order \<Rightarrow> rng \<Rightarrow> delivery \<times> rng" where
  "delivery_row ord g =
     (case randint 5 15 g of (dm, g1) \<Rightarrow>
      let dispatch_time = o_OrderTime ord + dm in
      case randint 20 40 g1 of (estimated_minutes, g2) \<Rightarrow>
      let estimated_delivery = dispatch_time + estimated_minutes in
      case randint (- 10) 15 g2 of (actual_variation, g3) \<Rightarrow>
      let actual_minutes = estimated_minutes + actual_variation;
          actual_delivery = dispatch_time + actual_minutes in
      case random g3 of (r, g4) \<Rightarrow>
      case (if r < 5 / 100
            then (case randint 60 120 g4 of (am, g5) \<Rightarrow> (am, dispatch_time + am, g5))
            else (actual_minutes, actual_delivery, g4)) of (actual_minutes', actual_delivery', g5) \<Rightarrow>
      case randint 1 1000 g5 of (partner, g6) \<Rightarrow>
      (\<lparr>d_DeliveryID = o_OrderID ord, d_OrderID = o_OrderID ord,
        d_DispatchTime = dispatch_time, d_EstimatedDeliveryTime = estimated_delivery,
        d_ActualDeliveryTime = actual_delivery', d_ActualDeliveryMinutes = actual_minutes',
        d_DeliveryPartnerID = partner, d_DeliveryStatus = ''Delivered''\<rparr>, g6))"

fun generate_delivery_tracking :: "order list \<Rightarrow> rng \<Rightarrow> delivery list \<times> rng" where
  "generate_delivery_tracking [] g = ([], g)"
| "generate_delivery_tracking (ord # rest) g =
     (if o_OrderStatus ord = ''Delivered''
      then (case delivery_row ord g of (row, g') \<Rightarrow>
            case generate_delivery_tracking rest g' of (rows, g'') \<Rightarrow> (row # rows, g''))
      else generate_delivery_tracking rest g)"

subsection \<open>The input tables and the order generator\<close>

record user =
  u_UserID :: int
  u_Username :: string
  u_Email :: string
  u_PasswordHash :: string
  u_Phone :: string
  u_Address :: string
  u_CityID :: int
  u_SignUpDate :: datetime
  u_AcquisitionChannelID :: int
  u_ReferredBy :: "int option"
  u_LastLoginDate :: datetime
  u_IsActive :: bool
  u_Preferences :: string

record restaurant =
  r_RestaurantID :: int
  r_Name :: string
  r_Address :: string
  r_CityID :: int
  r_Cuisine :: string
  r_Rating :: rat
  r_OperatingHours :: string
  r_ContactNumber :: string
  r_IsActive :: bool
  r_OpeningDate :: string

record menu_item =
  m_MenuID :: int
  m_RestaurantID :: int
  m_ItemName :: string
  m_Description :: string
  m_Price :: rat
  m_Category :: string
  m_CuisineType :: string
  m_IsVegetarian :: bool
  m_IsAvailable :: bool

record order_item =
  oi_OrderItemID :: int
  oi_OrderID :: int
  oi_MenuID :: int
  oi_Quantity :: int
  oi_ItemPrice :: rat
  oi_Subtotal :: rat

record config =
  start_date :: datetime
  end_date :: datetime
  target_total_orders :: int
  avg_items_per_order :: rat
  power_user_percentage :: rat
  weekend_only_user_percentage :: rat
  bot_users_count :: int

text \<open>
  The local variables of \<open>generate_orders\<close> that its loops update, together with the two
  global generators.
\<close>

record gen_state =
  orders_data :: "order list"
  order_items_data :: "order_item list"
  order_id :: int
  order_item_id :: int
  rnd :: rng
  nprnd :: rng

text \<open>\<open>np.random.choice(a, p=p)\<close>: the index is found on the cumulative sums of \<open>p\<close>.\<close>

fun cdf_index :: "rat list \<Rightarrow> rat \<Rightarrow> nat" where
  "cdf_index [] u = 0"
| "cdf_index (p # ps) u = (if u < p then 0 else Suc (cdf_index ps (u - p)))"

definition np_choice_p :: "'a list \<Rightarrow> rat list \<Rightarrow> rng \<Rightarrow> 'a \<times> rng" where
  "np_choice_p xs ps g = (case random g of (u, g') \<Rightarrow> (xs ! cdf_index ps u, g'))"

text \<open>\<open>df.sample(n=k)\<close> with a Python integer \<open>k\<close>; a negative \<open>k\<close> is a \<open>ValueError\<close>.\<close>

definition sample_int :: "'a list \<Rightarrow> int \<Rightarrow> rng \<Rightarrow> py_error + ('a list \<times> rng)" where
  "sample_int xs k g = (if k < 0 then Inl ValueError else sample_n xs (nat k) g)"

text \<open>\<open>df.iloc[0]\<close>: \<open>IndexError\<close> on an empty frame.\<close>

definition iloc0 :: "'a list \<Rightarrow> py_error + 'a" where
  "iloc0 xs = (case xs of [] \<Rightarrow> Inl IndexError | x # _ \<Rightarrow> Inr x)"

definition weekday :: "datetime \<Rightarrow> int" where
  "weekday t = (t div 1440) mod 7"

definition day_name :: "datetime \<Rightarrow> string" where
  "day_name t = [''Monday'', ''Tuesday'', ''Wednesday'', ''Thursday'', ''Friday'',
                 ''Saturday'', ''Sunday''] ! nat (weekday t)"

text \<open>\<open>t.replace(hour=h, minute=m)\<close>.\<close>

definition replace_hm :: "datetime \<Rightarrow> int \<Rightarrow> int \<Rightarrow> datetime" where
  "replace_hm t h m = (t div 1440) * 1440 + h * 60 + m"

text \<open>\<open>for _ in range(n)\<close> around a body that may raise.\<close>

fun for_range :: "nat \<Rightarrow> ('s \<Rightarrow> py_error + 's) \<Rightarrow> 's \<Rightarrow> py_error + 's" where
  "for_range 0 body s = Inr s"
| "for_range (Suc n) body s =
     (case body s of Inl e \<Rightarrow> Inl e | Inr s' \<Rightarrow> for_range n body s')"

definition get_order_hour_with_peaks :: "rng \<Rightarrow> py_error + (int \<times> rng)" where
  "get_order_hour_with_peaks g =
     (case random g of (rand, g1) \<Rightarrow>
        if rand < 40 / 100 then Inr (randint 19 22 g1)
        else if rand < 65 / 100 then Inr (randint 12 15 g1)
        else if rand < 80 / 100 then Inr (randint 16 18 g1)
        else if rand < 90 / 100 then Inr (randint 8 11 g1)
        else choice [23, 0, 1] g1)"

text \<open>The loop over \<open>selected_items\<close> that builds the order's lines and its running total.\<close>

fun add_items ::
  "menu_item list \<Rightarrow> int \<Rightarrow> int \<Rightarrow> rat \<Rightarrow> order_item list \<Rightarrow> rng
     \<Rightarrow> py_error + (rat \<times> order_item list \<times> int \<times> rng)" where
  "add_items [] oid oiid total_amount acc g = Inr (total_amount, acc, oiid, g)"
| "add_items (item # rest) oid oiid total_amount acc g =
     (case choice [1, 1, 1, 2] g of
        Inl e \<Rightarrow> Inl e
      | Inr (quantity, g') \<Rightarrow>
          (let item_price = m_Price item;
               subtotal = fmul item_price (of_int quantity)
           in add_items rest oid (oiid + 1) (fadd total_amount subtotal)
                (acc @ [\<lparr>oi_OrderItemID = oiid, oi_OrderID = oid, oi_MenuID = m_MenuID item,
                         oi_Quantity = quantity, oi_ItemPrice = item_price,
                         oi_Subtotal = subtotal\<rparr>]) g'))"

text \<open>
  The first lines of the body of \<open>for _ in range(daily_orders)\<close>: the user is drawn from
  the day's pool, and a restaurant from the active ones of the user's city, or from all
  active ones when the city has none.
\<close>

definition select_user_and_restaurant ::
  "user list \<Rightarrow> restaurant list \<Rightarrow> int list \<Rightarrow> rng \<Rightarrow> rng
     \<Rightarrow> py_error + (int \<times> restaurant \<times> rng \<times> rng)" where
  "select_user_and_restaurant users_df restaurants_df pool g n =
     and_then (choice pool g) (\<lambda>(user_id, g1).
     and_then (iloc0 (filter (\<lambda>u. u_UserID u = user_id) users_df)) (\<lambda>user_row.
     let user_city = u_CityID user_row;
         local_restaurants =
           filter (\<lambda>r. r_CityID r = user_city \<and> r_IsActive r) restaurants_df;
         city_restaurants =
           (if length local_restaurants = 0 then filter r_IsActive restaurants_df
            else local_restaurants)
     in
     and_then (sample1 city_restaurants n) (\<lambda>(restaurant, n1).
     Inr (user_id, restaurant, g1, n1))))"

text \<open>
  One pass of the body of \<open>for _ in range(daily_orders)\<close>. The \<open>continue\<close> on an empty
  menu leaves every counter and both tables as they were; only the generators have moved.
\<close>

definition order_iteration ::
  "user list \<Rightarrow> restaurant list \<Rightarrow> menu_item list \<Rightarrow> int list \<Rightarrow> int list \<Rightarrow> int list
     \<Rightarrow> datetime \<Rightarrow> gen_state \<Rightarrow> py_error + gen_state" where
  "order_iteration users_df restaurants_df menu_df power_users weekend_users regular_users
       current_date s =
     and_then (select_user_and_restaurant users_df restaurants_df
                 (if 5 \<le> weekday current_date
                  then power_users @ weekend_users @ regular_users
                  else power_users @ regular_users) (rnd s) (nprnd s))
       (\<lambda>(user_id, restaurant, g1, n1).
     and_then (get_order_hour_with_peaks g1) (\<lambda>(order_hour, g2).
     case randint 0 59 g2 of (order_minute, g3) \<Rightarrow>
     let order_time = replace_hm current_date order_hour order_minute;
         restaurant_menu =
           filter (\<lambda>m. m_RestaurantID m = r_RestaurantID restaurant \<and> m_IsAvailable m) menu_df
     in
     if length restaurant_menu = 0 then Inr (s\<lparr>rnd := g3, nprnd := n1\<rparr>)
     else
     case np_choice_p [1, 2, 3, 4] [55 / 100, 30 / 100, 10 / 100, 5 / 100] n1 of
       (num_items, n2) \<Rightarrow>
     and_then (sample_n restaurant_menu (min num_items (length restaurant_menu)) n2)
       (\<lambda>(selected_items, n3).
     and_then (add_items selected_items (order_id s) (order_item_id s) 0 [] g3)
       (\<lambda>(total_amount, order_items_for_order, oiid', g4).
     and_then (choice [0, 0, 30, 40, 50, 60] g4) (\<lambda>(delivery_fee, g5).
     and_then (if 500 < total_amount
               then and_then (choice [0, 0, fl (10 / 100), fl (15 / 100)] g5)
                      (\<lambda>(c, g6). Inr (py_round2 (fmul total_amount c), g6))
               else Inr (0, g5)) (\<lambda>(discount_amount, g6).
     let final_amount = fsub (fadd total_amount delivery_fee) discount_amount in
     and_then (choice (replicate 90 ''Delivered'' @ replicate 10 ''Cancelled'') g6)
       (\<lambda>(status, g7).
     and_then (iloc0 (filter (\<lambda>u. u_UserID u = user_id) users_df)) (\<lambda>address_row.
     and_then (choice [''Credit Card'', ''Debit Card'', ''UPI'', ''UPI'', ''UPI'',
                       ''Cash on Delivery''] g7) (\<lambda>(payment, g8).
     Inr (s\<lparr>orders_data := orders_data s @
               [\<lparr>o_OrderID = order_id s, o_UserID = user_id,
                 o_RestaurantID = r_RestaurantID restaurant, o_OrderTime = order_time,
                 o_OrderDate = current_date div 1440, o_OrderDay = day_name current_date,
                 o_OrderHour = order_hour, o_TotalAmount = py_round2 total_amount,
                 o_DeliveryFee = delivery_fee, o_DiscountAmount = discount_amount,
                 o_FinalAmount = py_round2 final_amount, o_OrderStatus = status,
                 o_DeliveryAddress = u_Address address_row, o_PaymentMethod = payment\<rparr>],
            order_items_data := order_items_data s @ order_items_for_order,
            order_id := order_id s + 1, order_item_id := oiid',
            rnd := g8, nprnd := n3\<rparr>))))))))))"

text \<open>The number of orders of a day: the baseline, the growth factor, the weekend boost.\<close>

definition daily_orders :: "config \<Rightarrow> datetime \<Rightarrow> int" where
  "daily_orders cfg current_date =
     (let days_passed = (current_date - start_date cfg) div 1440;
          month_factor = fadd 1 (fmul (int_truediv days_passed 30) (fl (3 / 100)));
          base_daily_orders = int_truediv (target_total_orders cfg) 365
      in if 5 \<le> weekday current_date
         then py_int (fmul (fmul base_daily_orders (fl (14 / 10))) month_factor)
         else py_int (fmul base_daily_orders month_factor))"

text \<open>\<open>while current_date <= config['end_date']\<close>, one day per pass.\<close>

function daily_loop ::
  "user list \<Rightarrow> restaurant list \<Rightarrow> menu_item list \<Rightarrow> config \<Rightarrow> int list \<Rightarrow> int list
     \<Rightarrow> int list \<Rightarrow> datetime \<Rightarrow> gen_state \<Rightarrow> py_error + gen_state" where
  "daily_loop users_df restaurants_df menu_df cfg power_users weekend_users regular_users
       current_date s =
     (if current_date \<le> end_date cfg
      then (case for_range (nat (daily_orders cfg current_date))
                   (order_iteration users_df restaurants_df menu_df power_users weekend_users
                      regular_users current_date) s of
              Inl e \<Rightarrow> Inl e
            | Inr s' \<Rightarrow>
                daily_loop users_df restaurants_df menu_df cfg power_users weekend_users
                  regular_users (current_date + 1440) s')
      else Inr s)"
  by pat_completeness auto
termination
  by (relation "measure (\<lambda>(users_df, restaurants_df, menu_df, cfg, power_users, weekend_users,
                           regular_users, current_date, s). nat (end_date cfg - current_date + 1))")
     auto

declare daily_loop.simps [simp del]

text \<open>One pass of the body of the inner loop of the bot-injection pass.\<close>

definition bot_iteration ::
  "user list \<Rightarrow> restaurant list \<Rightarrow> menu_item list \<Rightarrow> int \<Rightarrow> datetime \<Rightarrow> gen_state
     \<Rightarrow> py_error + gen_state" where
  "bot_iteration users_df restaurants_df menu_df bot_user bot_date s =
     and_then (sample1 restaurants_df (nprnd s)) (\<lambda>(restaurant, n1).
     let restaurant_menu =
           filter (\<lambda>m. m_RestaurantID m = r_RestaurantID restaurant \<and> m_IsAvailable m) menu_df
     in
     if length restaurant_menu = 0 then Inr (s\<lparr>nprnd := n1\<rparr>)
     else
     and_then (sample1 restaurant_menu n1) (\<lambda>(item, n2).
     case randint 0 23 (rnd s) of (order_hour, g1) \<Rightarrow>
     case randint 0 59 g1 of (order_minute, g2) \<Rightarrow>
     let order_time = replace_hm bot_date order_hour order_minute;
         total_amount = m_Price item
     in
     and_then (iloc0 (filter (\<lambda>u. u_UserID u = bot_user) users_df)) (\<lambda>address_row.
     Inr (s\<lparr>orders_data := orders_data s @
               [\<lparr>o_OrderID = order_id s, o_UserID = bot_user,
                 o_RestaurantID = r_RestaurantID restaurant, o_OrderTime = order_time,
                 o_OrderDate = bot_date div 1440, o_OrderDay = day_name bot_date,
                 o_OrderHour = order_hour, o_TotalAmount = total_amount,
                 o_DeliveryFee = 0, o_DiscountAmount = 0,
                 o_FinalAmount = total_amount, o_OrderStatus = ''Delivered'',
                 o_DeliveryAddress = u_Address address_row, o_PaymentMethod = ''UPI''\<rparr>],
            order_items_data := order_items_data s @
               [\<lparr>oi_OrderItemID = order_item_id s, oi_OrderID = order_id s,
                 oi_MenuID = m_MenuID item, oi_Quantity = 1, oi_ItemPrice = m_Price item,
                 oi_Subtotal = m_Price item\<rparr>],
            order_id := order_id s + 1, order_item_id := order_item_id s + 1,
            rnd := g2, nprnd := n2\<rparr>))))"

text \<open>\<open>for bot_user in bot_users[:25]\<close>: one burst day and 50 to 100 attempts each.\<close>

fun bot_pass ::
  "user list \<Rightarrow> restaurant list \<Rightarrow> menu_item list \<Rightarrow> config \<Rightarrow> int list \<Rightarrow> gen_state
     \<Rightarrow> py_error + gen_state" where
  "bot_pass users_df restaurants_df menu_df cfg [] s = Inr s"
| "bot_pass users_df restaurants_df menu_df cfg (bot_user # rest) s =
     (case randint 0 300 (rnd s) of (k, g1) \<Rightarrow>
      case randint 50 100 g1 of (attempts, g2) \<Rightarrow>
      (case for_range (nat attempts)
              (bot_iteration users_df restaurants_df menu_df bot_user
                 (start_date cfg + 1440 * k)) (s\<lparr>rnd := g2\<rparr>) of
         Inl e \<Rightarrow> Inl e
       | Inr s' \<Rightarrow> bot_pass users_df restaurants_df menu_df cfg rest s'))"

text \<open>
  The four cohorts, drawn without replacement from the users not yet placed; the result
  is the power, weekend-only, bot and regular user ids and numpy's generator afterwards.
\<close>

definition select_cohorts ::
  "user list \<Rightarrow> config \<Rightarrow> rng \<Rightarrow> py_error + (int list \<times> int list \<times> int list \<times> int list \<times> rng)" where
  "select_cohorts users_df cfg n0 =
     (let total_users = int (length users_df);
          num_power_users = py_int (of_int total_users * power_user_percentage cfg);
          num_weekend_users = py_int (of_int total_users * weekend_only_user_percentage cfg);
          num_bot_users = bot_users_count cfg
      in
      and_then (sample_int users_df num_power_users n0) (\<lambda>(power_rows, n1).
      let power_users = map u_UserID power_rows in
      and_then (sample_int (filter (\<lambda>u. u_UserID u \<notin> set power_users) users_df)
                  num_weekend_users n1) (\<lambda>(weekend_rows, n2).
      let weekend_users = map u_UserID weekend_rows in
      and_then (sample_int (filter (\<lambda>u. u_UserID u \<notin> set (power_users @ weekend_users)) users_df)
                  num_bot_users n2) (\<lambda>(bot_rows, n3).
      let bot_users = map u_UserID bot_rows;
          regular_users =
            map u_UserID (filter (\<lambda>u. u_UserID u \<notin> set (power_users @ weekend_users @ bot_users))
                            users_df)
      in Inr (power_users, weekend_users, bot_users, regular_users, n3)))))"

definition initial_state :: "rng \<Rightarrow> rng \<Rightarrow> gen_state" where
  "initial_state g n =
     \<lparr>orders_data = [], order_items_data = [], order_id = 1, order_item_id = 1,
      rnd = g, nprnd = n\<rparr>"

text \<open>The state after the daily loop, before the bot-injection pass.\<close>

definition generate_daily_orders ::
  "user list \<Rightarrow> restaurant list \<Rightarrow> menu_item list \<Rightarrow> config \<Rightarrow> rng \<Rightarrow> rng
     \<Rightarrow> py_error + (int list \<times> gen_state)" where
  "generate_daily_orders users_df restaurants_df menu_df cfg g n =
     and_then (select_cohorts users_df cfg n)
       (\<lambda>(power_users, weekend_users, bot_users, regular_users, n').
     and_then (daily_loop users_df restaurants_df menu_df cfg power_users weekend_users
                 regular_users (start_date cfg) (initial_state g n'))
       (\<lambda>s. Inr (bot_users, s)))"

text \<open>
  \<open>generate_orders\<close>: the returned frames are \<open>orders_data\<close> and \<open>order_items_data\<close> of the
  final state.
\<close>

definition generate_orders ::
  "user list \<Rightarrow> restaurant list \<Rightarrow> menu_item list \<Rightarrow> config \<Rightarrow> rng \<Rightarrow> rng
     \<Rightarrow> py_error + gen_state" where
  "generate_orders users_df restaurants_df menu_df cfg g n =
     and_then (generate_daily_orders users_df restaurants_df menu_df cfg g n)
       (\<lambda>(bot_users, s). bot_pass users_df restaurants_df menu_df cfg (take 25 bot_users) s)"

subsection \<open>What the generator promises of a generated order and its lines\<close>

text \<open>
  A line of a daily order: its subtotal is the double product of price and quantity. A
  line of a bot order has quantity 1 and the price itself as subtotal.
\<close>

definition line_ok :: "int \<Rightarrow> order_item \<Rightarrow> menu_item \<Rightarrow> bool" where
  "line_ok oid i m \<longleftrightarrow>
     oi_OrderID i = oid \<and> oi_MenuID i = m_MenuID m \<and> oi_ItemPrice i = m_Price m
     \<and> (oi_Quantity i = 1 \<or> oi_Quantity i = 2)
     \<and> oi_Subtotal i = fmul (oi_ItemPrice i) (of_int (oi_Quantity i))"

definition bot_line_ok :: "int \<Rightarrow> order_item \<Rightarrow> menu_item \<Rightarrow> bool" where
  "bot_line_ok oid i m \<longleftrightarrow>
     oi_OrderID i = oid \<and> oi_MenuID i = m_MenuID m \<and> oi_ItemPrice i = m_Price m
     \<and> oi_Quantity i = 1 \<and> oi_Subtotal i = oi_ItemPrice i"

text \<open>The running total of the loop over the lines: \<open>total_amount += subtotal\<close> from 0.\<close>

definition float_sum :: "rat list \<Rightarrow> rat" where
  "float_sum xs = foldl fadd 0 xs"

definition restaurant_choice_ok :: "user list \<Rightarrow> restaurant list \<Rightarrow> order \<Rightarrow> bool" where
  "restaurant_choice_ok users_df restaurants_df ord \<longleftrightarrow>
     (\<exists>u r. iloc0 (filter (\<lambda>u. u_UserID u = o_UserID ord) users_df) = Inr u
        \<and> r \<in> set restaurants_df \<and> r_RestaurantID r = o_RestaurantID ord \<and> r_IsActive r
        \<and> ((\<exists>r' \<in> set restaurants_df. r_IsActive r' \<and> r_CityID r' = u_CityID u)
               \<longrightarrow> r_CityID r = u_CityID u))"

definition lines_from_menu :: "menu_item list \<Rightarrow> order \<Rightarrow> order_item list \<Rightarrow> bool" where
  "lines_from_menu menu_df ord its \<longleftrightarrow>
     (\<forall>i \<in> set its. \<exists>m \<in> set menu_df.
        m_IsAvailable m \<and> m_RestaurantID m = o_RestaurantID ord \<and> line_ok (o_OrderID ord) i m)"

definition daily_order ::
  "user list \<Rightarrow> restaurant list \<Rightarrow> menu_item list \<Rightarrow> order \<Rightarrow> order_item list \<Rightarrow> bool" where
  "daily_order users_df restaurants_df menu_df ord its \<longleftrightarrow>
     lines_from_menu menu_df ord its
     \<and> restaurant_choice_ok users_df restaurants_df ord
     \<and> (let t = float_sum (map oi_Subtotal its) in
          o_TotalAmount ord = py_round2 t
          \<and> o_DeliveryFee ord \<in> {0, 30, 40, 50, 60}
          \<and> (o_DiscountAmount ord = 0
               \<or> 500 < t \<and> (o_DiscountAmount ord = py_round2 (fmul t (fl (10 / 100)))
                             \<or> o_DiscountAmount ord = py_round2 (fmul t (fl (15 / 100)))))
          \<and> o_FinalAmount ord
              = py_round2 (fsub (fadd t (o_DeliveryFee ord)) (o_DiscountAmount ord)))"

definition bot_order :: "restaurant list \<Rightarrow> menu_item list \<Rightarrow> order \<Rightarrow> order_item list \<Rightarrow> bool" where
  "bot_order restaurants_df menu_df ord its \<longleftrightarrow>
     (\<exists>r \<in> set restaurants_df. r_RestaurantID r = o_RestaurantID ord)
     \<and> (\<exists>m \<in> set menu_df. \<exists>i. m_IsAvailable m \<and> m_RestaurantID m = o_RestaurantID ord
            \<and> its = [i] \<and> bot_line_ok (o_OrderID ord) i m
            \<and> o_TotalAmount ord = m_Price m \<and> o_FinalAmount ord = m_Price m)
     \<and> o_DeliveryFee ord = 0 \<and> o_DiscountAmount ord = 0 \<and> o_OrderStatus ord = ''Delivered''"

definition orders_inv :: "(order \<Rightarrow> order_item list \<Rightarrow> bool) \<Rightarrow> gen_state \<Rightarrow> bool" where
  "orders_inv K s \<longleftrightarrow>
     map o_OrderID (orders_data s) = map int [1 ..< Suc (length (orders_data s))]
     \<and> order_id s = int (length (orders_data s)) + 1
     \<and> (\<forall>i \<in> set (order_items_data s). oi_OrderID i \<in> o_OrderID ` set (orders_data s))
     \<and> (\<forall>ord \<in> set (orders_data s).
           K ord (filter (\<lambda>i. oi_OrderID i = o_OrderID ord) (order_items_data s)))"

definition generated_order ::
  "user list \<Rightarrow> restaurant list \<Rightarrow> menu_item list \<Rightarrow> order \<Rightarrow> order_item list \<Rightarrow> bool" where
  "generated_order users_df restaurants_df menu_df ord its \<longleftrightarrow>
     daily_order users_df restaurants_df menu_df ord its \<or> bot_order restaurants_df menu_df ord its"

text \<open>The lines of an order: the OrderItem rows that carry its id.\<close>

definition lines_of :: "order_item list \<Rightarrow> order \<Rightarrow> order_item list" where
  "lines_of items ord = filter (\<lambda>i. oi_OrderID i = o_OrderID ord) items"

section \<open>Stage 3: sessions and cart items (generate\_data\_03.py)\<close>

record session =
  ss_SessionID :: int
  ss_UserID :: int
  ss_SessionStart :: datetime
  ss_SessionEnd :: datetime
  ss_OrderPlaced :: bool
  ss_OrderID :: "int option"
  ss_PagesViewed :: int
  ss_DeviceType :: string

record cart_item =
  c_CartID :: int
  c_UserID :: int
  c_RestaurantID :: int
  c_MenuID :: int
  c_Quantity :: int
  c_AddedAt :: datetime
  c_IsOrdered :: bool
  c_OrderID :: "int option"

text \<open>The module-level \<open>CONFIG\<close> dictionary of the script, passed explicitly.\<close>

record config3 =
  sessions_per_user_per_month :: int
  abandoned_cart_rate :: rat

definition CONFIG :: config3 where
  "CONFIG = \<lparr>sessions_per_user_per_month = 8, abandoned_cart_rate = 30 / 100\<rparr>"

record session_state =
  sessions :: "session list"
  session_id :: int
  s_rnd :: rng

text \<open>
  One pass of \<open>for _ in range(total_sessions)\<close>. \<open>days\<close> is \<open>(end_date - signup_date).days\<close>;
  \<open>random.randint(0, days)\<close> raises \<open>ValueError\<close> when the user signed up after the end date.
\<close>

definition session_iteration :: "user \<Rightarrow> order list \<Rightarrow> int \<Rightarrow> session_state
     \<Rightarrow> py_error + session_state" where
  "session_iteration user user_orders days s =
     (if days < 0 then Inl ValueError
      else
      case randint 0 days (s_rnd s) of (random_days, g1) \<Rightarrow>
      let session_start = u_SignUpDate user + random_days * 1440 in
      case randint 2 30 g1 of (duration, g2) \<Rightarrow>
      let session_end = session_start + duration;
          order_match = filter (\<lambda>ord. session_start \<le> o_OrderTime ord
                                    \<and> o_OrderTime ord \<le> session_end) user_orders;
          order_placed = (order_match \<noteq> []);
          order_id = (if order_placed then Some (o_OrderID (hd order_match)) else None)
      in
      case (if order_placed then randint 5 20 g2 else randint 1 8 g2) of (pages, g3) \<Rightarrow>
      and_then (choice [''Mobile'', ''Mobile'', ''Mobile'', ''Desktop'', ''Tablet''] g3)
        (\<lambda>(device, g4).
      Inr (s\<lparr>sessions := sessions s @
               [\<lparr>ss_SessionID = session_id s, ss_UserID = u_UserID user,
                 ss_SessionStart = session_start, ss_SessionEnd = session_end,
                 ss_OrderPlaced = order_placed, ss_OrderID = order_id,
                 ss_PagesViewed = pages, ss_DeviceType = device\<rparr>],
             session_id := session_id s + 1, s_rnd := g4\<rparr>)))"

text \<open>The body of \<open>for _, user in users_df.iterrows()\<close>; 2024-12-31 is minute 525600.\<close>

definition user_sessions :: "config3 \<Rightarrow> order list \<Rightarrow> user \<Rightarrow> session_state
     \<Rightarrow> py_error + session_state" where
  "user_sessions cfg orders_df user s =
     (let end_date = 525600;
          days = (end_date - u_SignUpDate user) div 1440;
          months_active = max 1 (py_int (of_int days / 30));
          total_sessions = months_active * sessions_per_user_per_month cfg;
          user_orders = filter (\<lambda>ord. o_UserID ord = u_UserID user) orders_df
      in for_range (nat total_sessions) (session_iteration user user_orders days) s)"

fun for_each :: "'a list \<Rightarrow> ('a \<Rightarrow> 's \<Rightarrow> py_error + 's) \<Rightarrow> 's \<Rightarrow> py_error + 's" where
  "for_each [] body s = Inr s"
| "for_each (x # xs) body s =
     (case body x s of Inl e \<Rightarrow> Inl e | Inr s' \<Rightarrow> for_each xs body s')"

definition generate_user_sessions :: "config3 \<Rightarrow> user list \<Rightarrow> order list \<Rightarrow> rng
     \<Rightarrow> py_error + (session list \<times> rng)" where
  "generate_user_sessions cfg users_df orders_df g =
     and_then (for_each users_df (user_sessions cfg orders_df)
                 \<lparr>sessions = [], session_id = 1, s_rnd = g\<rparr>)
       (\<lambda>s. Inr (sessions s, s_rnd s))"

record cart_state =
  cart :: "cart_item list"
  cart_id :: int
  c_rnd :: rng
  c_nprnd :: rng

text \<open>The body of \<open>for _, item in items.iterrows()\<close>: one ordered cart row per order line.\<close>

definition ordered_row :: "order \<Rightarrow> order_item \<Rightarrow> cart_state \<Rightarrow> py_error + cart_state" where
  "ordered_row ord item s =
     (case randint 1 10 (c_rnd s) of (minutes, g1) \<Rightarrow>
      Inr (s\<lparr>cart := cart s @
               [\<lparr>c_CartID = cart_id s, c_UserID = o_UserID ord,
                 c_RestaurantID = o_RestaurantID ord, c_MenuID = oi_MenuID item,
                 c_Quantity = oi_Quantity item, c_AddedAt = o_OrderTime ord - minutes,
                 c_IsOrdered = True, c_OrderID = Some (o_OrderID ord)\<rparr>],
             cart_id := cart_id s + 1, c_rnd := g1\<rparr>))"

text \<open>The body of \<open>for _, order in orders_df.iterrows()\<close>.\<close>

definition ordered_rows :: "order_item list \<Rightarrow> order \<Rightarrow> cart_state \<Rightarrow> py_error + cart_state" where
  "ordered_rows order_items_df ord s =
     (let items = filter (\<lambda>i. oi_OrderID i = o_OrderID ord) order_items_df
      in for_each items (ordered_row ord) s)"

text \<open>
  The body of \<open>for _ in range(target_abandoned)\<close>. The \<open>continue\<close> on an empty menu adds
  no row; the two \<open>sample(1)\<close> calls raise \<open>ValueError\<close> on an empty frame.
\<close>

definition abandoned_iteration :: "user list \<Rightarrow> restaurant list \<Rightarrow> menu_item list \<Rightarrow> cart_state
     \<Rightarrow> py_error + cart_state" where
  "abandoned_iteration users_df restaurants_df menu_df s =
     and_then (sample1 users_df (c_nprnd s)) (\<lambda>(user, n1).
     and_then (sample1 (filter r_IsActive restaurants_df) n1) (\<lambda>(restaurant, n2).
     let menu_items =
           filter (\<lambda>m. m_RestaurantID m = r_RestaurantID restaurant \<and> m_IsAvailable m) menu_df
     in
     if menu_items = [] then Inr (s\<lparr>c_nprnd := n2\<rparr>)
     else
     and_then (sample1 menu_items n2) (\<lambda>(item, n3).
     and_then (choice [1, 1, 2] (c_rnd s)) (\<lambda>(quantity, g1).
     case randint 0 364 g1 of (d, g2) \<Rightarrow>
     Inr (s\<lparr>cart := cart s @
               [\<lparr>c_CartID = cart_id s, c_UserID = u_UserID user,
                 c_RestaurantID = r_RestaurantID restaurant, c_MenuID = m_MenuID item,
                 c_Quantity = quantity, c_AddedAt = d * 1440,
                 c_IsOrdered = False, c_OrderID = None\<rparr>],
            cart_id := cart_id s + 1, c_rnd := g2, c_nprnd := n3\<rparr>)))))"

text \<open>
  \<open>int(len(cart) * rate / (1 - rate))\<close>; the division raises \<open>ZeroDivisionError\<close> for rate 1.
\<close>

definition target_abandoned :: "config3 \<Rightarrow> nat \<Rightarrow> py_error + int" where
  "target_abandoned cfg n =
     (if 1 - abandoned_cart_rate cfg = 0 then Inl ZeroDivisionError
      else Inr (py_int (of_nat n * abandoned_cart_rate cfg / (1 - abandoned_cart_rate cfg))))"

definition generate_cart_items ::
  "config3 \<Rightarrow> user list \<Rightarrow> restaurant list \<Rightarrow> menu_item list \<Rightarrow> order list \<Rightarrow> order_item list
     \<Rightarrow> rng \<Rightarrow> rng \<Rightarrow> py_error + (cart_item list \<times> rng \<times> rng)" where
  "generate_cart_items cfg users_df restaurants_df menu_df orders_df order_items_df g n =
     and_then (for_each orders_df (ordered_rows order_items_df)
                 \<lparr>cart = [], cart_id = 1, c_rnd = g, c_nprnd = n\<rparr>) (\<lambda>s1.
     and_then (target_abandoned cfg (length (cart s1))) (\<lambda>target.
     and_then (for_range (nat target) (abandoned_iteration users_df restaurants_df menu_df) s1)
       (\<lambda>s2. Inr (cart s2, c_rnd s2, c_nprnd s2))))"

subsection \<open>The script: checks, loading, generation, output\<close>

text \<open>
  What the script sees of its environment: the CSV files by path (a path with no entry
  does not exist), the lines printed so far, and the two process-global generators.
\<close>

datatype csv =
    UsersCsv "user list"
  | RestaurantsCsv "restaurant list"
  | MenuCsv "menu_item list"
  | OrdersCsv "order list"
  | OrderItemsCsv "order_item list"
  | SessionsCsv "session list"
  | CartCsv "cart_item list"

record world =
  files :: "string \<rightharpoonup> csv"
  stdout :: "string list"
  random_state :: rng
  np_random_state :: rng

text \<open>\<open>os.path.join\<close> of two components (posixpath).\<close>

definition path_join :: "string \<Rightarrow> string \<Rightarrow> string" where
  "path_join a b =
     (if b \<noteq> [] \<and> hd b = CHR ''/'' then b
      else if a = [] \<or> last a = CHR ''/'' then a @ b
      else a @ ''/'' @ b)"

definition path_exists :: "world \<Rightarrow> string \<Rightarrow> bool" where
  "path_exists w p = (files w p \<noteq> None)"

definition required_master :: "string list" where
  "required_master = [''users.csv'', ''restaurants.csv'', ''menu.csv'']"

definition required_txn :: "string list" where
  "required_txn = [''orders.csv'', ''order_items.csv'']"

text \<open>
  \<open>for f in names: path = os.path.join(dir, f); if not os.path.exists(path): raise
  FileNotFoundError(prefix + path)\<close>.
\<close>

fun check_files :: "string \<Rightarrow> string \<Rightarrow> string list \<Rightarrow> world \<Rightarrow> py_error + unit" where
  "check_files prefix dir [] w = Inr ()"
| "check_files prefix dir (f # fs) w =
     (let path = path_join dir f in
      if \<not> path_exists w path then Inl (FileNotFoundError (prefix @ path))
      else check_files prefix dir fs w)"

definition print :: "string \<Rightarrow> world \<Rightarrow> world" where
  "print line w = w\<lparr>stdout := stdout w @ [line]\<rparr>"

text \<open>
  \<open>pd.read_csv\<close> of each table. A file that holds another table has none of the columns
  the generators index, which is reported here as \<open>ValueError\<close> at the read.
\<close>

definition read_users :: "world \<Rightarrow> string \<Rightarrow> py_error + user list" where
  "read_users w p = (case files w p of None \<Rightarrow> Inl (FileNotFoundError p)
                     | Some (UsersCsv t) \<Rightarrow> Inr t | Some _ \<Rightarrow> Inl ValueError)"

definition read_restaurants :: "world \<Rightarrow> string \<Rightarrow> py_error + restaurant list" where
  "read_restaurants w p = (case files w p of None \<Rightarrow> Inl (FileNotFoundError p)
                     | Some (RestaurantsCsv t) \<Rightarrow> Inr t | Some _ \<Rightarrow> Inl ValueError)"

definition read_menu :: "world \<Rightarrow> string \<Rightarrow> py_error + menu_item list" where
  "read_menu w p = (case files w p of None \<Rightarrow> Inl (FileNotFoundError p)
                     | Some (MenuCsv t) \<Rightarrow> Inr t | Some _ \<Rightarrow> Inl ValueError)"

definition read_orders :: "world \<Rightarrow> string \<Rightarrow> py_error + order list" where
  "read_orders w p = (case files w p of None \<Rightarrow> Inl (FileNotFoundError p)
                     | Some (OrdersCsv t) \<Rightarrow> Inr t | Some _ \<Rightarrow> Inl ValueError)"

definition read_order_items :: "world \<Rightarrow> string \<Rightarrow> py_error + order_item list" where
  "read_order_items w p = (case files w p of None \<Rightarrow> Inl (FileNotFoundError p)
                     | Some (OrderItemsCsv t) \<Rightarrow> Inr t | Some _ \<Rightarrow> Inl ValueError)"

definition to_csv :: "string \<Rightarrow> csv \<Rightarrow> world \<Rightarrow> world" where
  "to_csv p t w = w\<lparr>files := (files w)(p \<mapsto> t)\<rparr>"

function str_nat :: "nat \<Rightarrow> string" where
  "str_nat n = (if n < 10 then [char_of (48 + n)]
                else str_nat (n div 10) @ [char_of (48 + n mod 10)])"
  by pat_completeness auto
termination
  by (relation "measure id") auto

declare str_nat.simps [simp del]

text \<open>
  A step of the script that may raise: on an exception the run ends with that exception
  and the world as it was when the step began.
\<close>

definition try_step :: "py_error + 'a \<Rightarrow> world \<Rightarrow> ('a \<Rightarrow> py_error option \<times> world)
     \<Rightarrow> py_error option \<times> world" where
  "try_step m w f = (case m of Inl e \<Rightarrow> (Some e, w) | Inr x \<Rightarrow> f x)"

text \<open>
  The module body, top to bottom. \<open>seed\<close> and \<open>np_seed\<close> give the streams that
  \<open>random.seed\<close> and \<open>np.random.seed\<close> install; the result is the uncaught exception, if
  any, and the world the process leaves behind.
\<close>

definition stage3 :: "(int \<Rightarrow> rng) \<Rightarrow> (int \<Rightarrow> rng) \<Rightarrow> config3 \<Rightarrow> string \<Rightarrow> world
     \<Rightarrow> py_error option \<times> world" where
  "stage3 seed np_seed cfg BASE_DIR w =
     (let MASTER_DIR = path_join BASE_DIR ''1_csv_files'';
          TXN_DIR = BASE_DIR;
          OUTPUT_DIR = BASE_DIR
      in
      try_step (check_files ''Missing master file: '' MASTER_DIR required_master w) w (\<lambda>_.
      try_step (check_files ''Missing transaction file: '' TXN_DIR required_txn w) w (\<lambda>_.
      let w1 = w\<lparr>random_state := seed 42\<rparr>;
          w2 = w1\<lparr>np_random_state := np_seed 42\<rparr>;
          w3 = print ''Loading data...'' w2
      in
      try_step (read_users w3 (path_join MASTER_DIR ''users.csv'')) w3 (\<lambda>users_df.
      try_step (read_restaurants w3 (path_join MASTER_DIR ''restaurants.csv'')) w3
        (\<lambda>restaurants_df.
      try_step (read_menu w3 (path_join MASTER_DIR ''menu.csv'')) w3 (\<lambda>menu_df.
      try_step (read_orders w3 (path_join TXN_DIR ''orders.csv'')) w3 (\<lambda>orders_df.
      try_step (read_order_items w3 (path_join TXN_DIR ''order_items.csv'')) w3
        (\<lambda>order_items_df.
      let w4 = print ''Generating sessions...'' w3 in
      try_step (generate_user_sessions cfg users_df orders_df (random_state w4)) w4
        (\<lambda>(sessions_df, g1).
      let w5 = print ''Generating cart items...'' (w4\<lparr>random_state := g1\<rparr>) in
      try_step (generate_cart_items cfg users_df restaurants_df menu_df orders_df order_items_df
                  (random_state w5) (np_random_state w5)) w5
        (\<lambda>(cart_df, g2, n2).
      let w6 = w5\<lparr>random_state := g2, np_random_state := n2\<rparr>;
          w7 = to_csv (path_join OUTPUT_DIR ''user_sessions.csv'') (SessionsCsv sessions_df) w6;
          w8 = to_csv (path_join OUTPUT_DIR ''cart_items.csv'') (CartCsv cart_df) w7;
          w9 = print ([CHR 0x0A] @ replicate 50 CHR ''='') w8;
          w10 = print ''STEP 3 COMPLETE'' w9;
          w11 = print (replicate 50 CHR ''='') w10;
          w12 = print (''User Sessions: '' @ str_nat (length sessions_df)) w11;
          w13 = print (''Cart Items: '' @ str_nat (length cart_df)) w12;
          w14 = print (''Ready for analytics / SQL '' @
                       [CHR 0xC4, CHR 0x9F, CHR 0xC5, CHR 0xB8, CHR 0xC5, CHR 0xA1,
                        CHR 0xE2, CHR 0x82, CHR 0xAC]) w13
      in (None, w14)))))))))))"

text \<open>The five input paths, in the order the script checks them.\<close>

definition required_paths :: "string \<Rightarrow> string list" where
  "required_paths BASE_DIR =
     map (path_join (path_join BASE_DIR ''1_csv_files'')) required_master
     @ map (path_join BASE_DIR) required_txn"

section \<open>Stage 1: master data (generate\_data\_01.py)\<close>

text \<open>
  The script seeds Python's \<open>random\<close> and numpy, and nothing else. The \<open>Faker\<close> instance
  draws from a generator of its own, which \<open>random.seed\<close> does not reach and which the
  script never seeds, and \<open>date_between\<close> is relative to the day of the run. It is
  modelled by the stream of values it will hand out, one per provider call.
\<close>

type_synonym faker = "nat \<Rightarrow> string"

definition fake_value :: "faker \<Rightarrow> string \<times> faker" where
  "fake_value f = (f 0, \<lambda>i. f (Suc i))"

record city =
  ct_CityID :: int
  ct_CityName :: string
  ct_State :: string

definition indian_cities :: "(string \<times> string) list" where
  "indian_cities =
     [(''Mumbai'', ''Maharashtra''), (''Delhi'', ''Delhi''), (''Bangalore'', ''Karnataka''),
      (''Hyderabad'', ''Telangana''), (''Chennai'', ''Tamil Nadu''), (''Kolkata'', ''West Bengal''),
      (''Pune'', ''Maharashtra''), (''Ahmedabad'', ''Gujarat''), (''Jaipur'', ''Rajasthan''),
      (''Surat'', ''Gujarat''), (''Lucknow'', ''Uttar Pradesh''), (''Kanpur'', ''Uttar Pradesh''),
      (''Nagpur'', ''Maharashtra''), (''Indore'', ''Madhya Pradesh''), (''Thane'', ''Maharashtra''),
      (''Bhopal'', ''Madhya Pradesh''), (''Visakhapatnam'', ''Andhra Pradesh''),
      (''Pimpri-Chinchwad'', ''Maharashtra''),
      (''Patna'', ''Bihar''), (''Vadodara'', ''Gujarat''), (''Ghaziabad'', ''Uttar Pradesh''),
      (''Ludhiana'', ''Punjab''), (''Agra'', ''Uttar Pradesh''), (''Nashik'', ''Maharashtra''),
      (''Faridabad'', ''Haryana''), (''Meerut'', ''Uttar Pradesh''), (''Rajkot'', ''Gujarat''),
      (''Kalyan-Dombivali'', ''Maharashtra''), (''Vasai-Virar'', ''Maharashtra''),
      (''Varanasi'', ''Uttar Pradesh''),
      (''Srinagar'', ''Jammu and Kashmir''), (''Aurangabad'', ''Maharashtra''),
      (''Dhanbad'', ''Jharkhand''),
      (''Amritsar'', ''Punjab''), (''Navi Mumbai'', ''Maharashtra''),
      (''Allahabad'', ''Uttar Pradesh''),
      (''Ranchi'', ''Jharkhand''), (''Howrah'', ''West Bengal''), (''Coimbatore'', ''Tamil Nadu''),
      (''Jabalpur'', ''Madhya Pradesh''), (''Gwalior'', ''Madhya Pradesh''),
      (''Vijayawada'', ''Andhra Pradesh''),
      (''Jodhpur'', ''Rajasthan''), (''Madurai'', ''Tamil Nadu''), (''Raipur'', ''Chhattisgarh''),
      (''Kota'', ''Rajasthan''), (''Chandigarh'', ''Chandigarh''), (''Guwahati'', ''Assam''),
      (''Solapur'', ''Maharashtra''), (''Hubli-Dharwad'', ''Karnataka'')]"

definition generate_cities :: "nat \<Rightarrow> city list" where
  "generate_cities num_cities =
     map (\<lambda>(i, (c, st)). \<lparr>ct_CityID = int i, ct_CityName = c, ct_State = st\<rparr>)
       (enumerate 1 (take num_cities indian_cities))"

record channel =
  ch_ChannelID :: int
  ch_ChannelName :: string
  ch_Description :: string

definition generate_acquisition_channels :: "channel list" where
  "generate_acquisition_channels =
     map (\<lambda>(i, (name, desc)).
            \<lparr>ch_ChannelID = int i, ch_ChannelName = name, ch_Description = desc\<rparr>)
       (enumerate 1
          [(''Organic Search'', ''Users from search engines''),
           (''Google Ads'', ''Google advertising''),
           (''Facebook Ads'', ''Facebook advertising''),
           (''Instagram Ads'', ''Instagram advertising''),
           (''Referral Program'', ''User referrals''),
           (''App Store Featured'', ''App store featuring''),
           (''Email Marketing'', ''Email campaigns''),
           (''Influencer Marketing'', ''Influencer promotions''),
           (''Direct'', ''Direct visits''),
           (''YouTube Ads'', ''YouTube advertising'')])"

subsection \<open>Referrals\<close>

record referral =
  rf_ReferralID :: int
  rf_ReferrerUserID :: int
  rf_ReferredUserID :: int
  rf_ReferralDate :: datetime
  rf_RewardAmount :: int
  rf_RewardStatus :: string

record referral_state =
  ref_users :: "user list"
  referrals_data :: "referral list"
  ref_rnd :: rng
  ref_nprnd :: rng

text \<open>
  The body of \<open>for idx, user in users_with_channel_5.iterrows()\<close>: \<open>idx\<close> is the row's
  position in \<open>users_df\<close>, \<open>user\<close> the row as it was when the copy was taken, and
  \<open>users_df.at[idx, 'ReferredBy']\<close> writes into the live table.
\<close>

definition referral_iteration :: "nat \<times> user \<Rightarrow> referral_state \<Rightarrow> py_error + referral_state" where
  "referral_iteration p s =
     (case p of (idx, user) \<Rightarrow>
      let potential_referrers =
            filter (\<lambda>u. u_SignUpDate u < u_SignUpDate user \<and> u_UserID u \<noteq> u_UserID user)
              (ref_users s)
      in
      if length potential_referrers > 0 then
        and_then (sample1 potential_referrers (ref_nprnd s)) (\<lambda>(referrer, n1).
        let users1 = (ref_users s)[idx := (ref_users s ! idx)\<lparr>u_ReferredBy :=
                                               Some (u_UserID referrer)\<rparr>]
        in
        and_then (choice [50, 75, 100] (ref_rnd s)) (\<lambda>(amount, g1).
        and_then (choice [''Paid'', ''Paid'', ''Paid'', ''Pending''] g1) (\<lambda>(status, g2).
        Inr (s\<lparr>ref_users := users1,
               referrals_data := referrals_data s @
                 [\<lparr>rf_ReferralID = int (length (referrals_data s)) + 1,
                   rf_ReferrerUserID = u_UserID referrer,
                   rf_ReferredUserID = u_UserID user,
                   rf_ReferralDate = u_SignUpDate user,
                   rf_RewardAmount = amount, rf_RewardStatus = status\<rparr>],
               ref_rnd := g2, ref_nprnd := n1\<rparr>))))
      else Inr s)"

definition users_with_channel_5 :: "user list \<Rightarrow> (nat \<times> user) list" where
  "users_with_channel_5 users_df =
     filter (\<lambda>(idx, u). u_AcquisitionChannelID u = 5) (enumerate 0 users_df)"

definition add_referrals :: "user list \<Rightarrow> rng \<Rightarrow> rng
     \<Rightarrow> py_error + (user list \<times> referral list \<times> rng \<times> rng)" where
  "add_referrals users_df g n =
     and_then (for_each (users_with_channel_5 users_df) referral_iteration
                 \<lparr>ref_users = users_df, referrals_data = [], ref_rnd = g, ref_nprnd = n\<rparr>)
       (\<lambda>s. Inr (ref_users s, referrals_data s, ref_rnd s, ref_nprnd s))"

subsection \<open>Restaurants\<close>

definition cuisines :: "string list" where
  "cuisines = [''North Indian'', ''South Indian'', ''Chinese'', ''Italian'', ''Continental'',
               ''Fast Food'', ''Desserts'', ''Beverages'', ''Bakery'', ''Street Food'',
               ''Mughlai'', ''Bengali'', ''Punjabi'', ''Gujarati'', ''Rajasthani'']"

definition restaurant_names :: "string list" where
  "restaurant_names =
     [''The Great Kabab Factory'', ''Barbeque Nation'', ''Mainland China'', ''Paradise Biryani'',
      ''Dominos Pizza'', ''Pizza Hut'', ''KFC'', ''McDonalds'', ''Subway'', ''Burger King'',
      ''Cafe Coffee Day'', ''Starbucks'', ''The Beer Cafe'', ''Social'', ''The Brew House'',
      ''Haldirams'', ''Bikanervala'', ''Sagar Ratna'', ''Saravana Bhavan'', ''MTR'',
      [CHR ''K'', CHR ''a'', CHR ''r'', CHR ''e'', CHR ''e'', CHR ''m'', CHR 0x27, CHR ''s''],
      ''Moti Mahal'', ''Punjab Grill'', ''Oh! Calcutta'', ''Arsalan'',
      ''Empire Restaurant'', ''Meghana Foods'', ''Truffles'', ''Toit'', ''Smoke House Deli'']"

definition metro_cities :: "string list" where
  "metro_cities = [''Mumbai'', ''Delhi'', ''Bangalore'', ''Hyderabad'', ''Chennai'']"

text \<open>\<open>s.replace('\n', ', ')\<close>.\<close>

definition replace_newlines :: "string \<Rightarrow> string" where
  "replace_newlines s = concat (map (\<lambda>c. if c = CHR 0x0A then '', '' else [c]) s)"

record restaurant_state =
  restaurants_data :: "restaurant list"
  rs_rnd :: rng
  rs_nprnd :: rng
  rs_fake :: faker

text \<open>The body of \<open>for i in range(1, num_restaurants + 1)\<close>.\<close>

definition restaurant_iteration :: "city list \<Rightarrow> nat \<Rightarrow> restaurant_state
     \<Rightarrow> py_error + restaurant_state" where
  "restaurant_iteration cities_df i s =
     and_then (sample1 cities_df (rs_nprnd s)) (\<lambda>(city, n1).
     and_then (choice cuisines (rs_rnd s)) (\<lambda>(cuisine, g1).
     let rating_bias = (if ct_CityName city \<in> set metro_cities then 3 / 10 else 0) in
     and_then (choice restaurant_names g1) (\<lambda>(name, g2).
     case fake_value (rs_fake s) of (address, fa) \<Rightarrow>
     case uniform 3 5 g2 of (u, g3) \<Rightarrow>
     case fake_value fa of (phone_number, fb) \<Rightarrow>
     and_then (choice (replicate 95 True @ replicate 5 False) g3) (\<lambda>(is_active, g4).
     case fake_value fb of (opening_date, f3) \<Rightarrow>
     Inr (s\<lparr>restaurants_data := restaurants_data s @
               [\<lparr>r_RestaurantID = int i,
                 r_Name = name @ '' - '' @ ct_CityName city @ '' '' @ str_nat i,
                 r_Address = replace_newlines address,
                 r_CityID = ct_CityID city,
                 r_Cuisine = cuisine,
                 r_Rating = round2 (u + rating_bias),
                 r_OperatingHours = ''10:00 AM - 11:00 PM'',
                 r_ContactNumber = phone_number,
                 r_IsActive = is_active,
                 r_OpeningDate = opening_date\<rparr>],
            rs_rnd := g4, rs_nprnd := n1, rs_fake := f3\<rparr>)))))"

definition generate_restaurants :: "nat \<Rightarrow> city list \<Rightarrow> rng \<Rightarrow> rng \<Rightarrow> faker
     \<Rightarrow> py_error + (restaurant list \<times> rng \<times> rng \<times> faker)" where
  "generate_restaurants num_restaurants cities_df g n f =
     and_then (for_each [1 ..< Suc num_restaurants] (restaurant_iteration cities_df)
                 \<lparr>restaurants_data = [], rs_rnd = g, rs_nprnd = n, rs_fake = f\<rparr>)
       (\<lambda>s. Inr (restaurants_data s, rs_rnd s, rs_nprnd s, rs_fake s))"

text \<open>What \<open>generate_restaurants\<close> promises of a row, given the cities table.\<close>

definition rating_ok :: "city list \<Rightarrow> restaurant \<Rightarrow> bool" where
  "rating_ok cities_df r \<longleftrightarrow>
     (\<exists>city \<in> set cities_df. \<exists>x g0 g1.
        uniform 3 5 g0 = (x, g1) \<and> r_CityID r = ct_CityID city
        \<and> r_Rating r = round2 (x + (if ct_CityName city \<in> set metro_cities then 3 / 10 else 0))
        \<and> 3 \<le> r_Rating r \<and> r_Rating r \<le> 53 / 10
        \<and> (5 < r_Rating r \<longrightarrow> ct_CityName city \<in> set metro_cities))"

text \<open>A restaurant row without the three columns that come from Faker.\<close>

definition seeded_columns :: "restaurant \<Rightarrow> restaurant" where
  "seeded_columns r = r\<lparr>r_Address := [], r_ContactNumber := [], r_OpeningDate := []\<rparr>"

text \<open>
  The users that may refer \<open>user\<close>: \<open>potential_referrers\<close> of the loop body, and what the
  loop promises of a referral row and the table position of the user it was made for.
\<close>

definition earlier_users :: "user list \<Rightarrow> user \<Rightarrow> user list" where
  "earlier_users users user =
     filter (\<lambda>u. u_SignUpDate u < u_SignUpDate user \<and> u_UserID u \<noteq> u_UserID user) users"

definition same_but_referrer :: "user \<Rightarrow> user \<Rightarrow> bool" where
  "same_but_referrer a b \<longleftrightarrow> a\<lparr>u_ReferredBy := None\<rparr> = b\<lparr>u_ReferredBy := None\<rparr>"

definition referred_users :: "user list \<Rightarrow> (nat \<times> user) list" where
  "referred_users users_df =
     filter (\<lambda>(idx, u). earlier_users users_df u \<noteq> []) (users_with_channel_5 users_df)"

definition referral_ok :: "user list \<Rightarrow> referral \<Rightarrow> nat \<times> user \<Rightarrow> bool" where
  "referral_ok users r p \<longleftrightarrow>
     (case p of (idx, user) \<Rightarrow>
        rf_ReferredUserID r = u_UserID user \<and> rf_ReferralDate r = u_SignUpDate user
        \<and> (\<exists>referrer \<in> set users. u_UserID referrer = rf_ReferrerUserID r
              \<and> u_SignUpDate referrer < u_SignUpDate user
              \<and> u_UserID referrer \<noteq> u_UserID user)
        \<and> idx < length users
        \<and> u_ReferredBy (users ! idx) = Some (rf_ReferrerUserID r))"

section \<open>Small inputs for the worked runs\<close>

definition ex_user :: "int \<Rightarrow> int \<Rightarrow> datetime \<Rightarrow> int \<Rightarrow> user" where
  "ex_user i city signup channel =
     \<lparr>u_UserID = i, u_Username = ''user'', u_Email = ''user@example.org'',
      u_PasswordHash = ''00'', u_Phone = ''000'', u_Address = ''1 Main Road'', u_CityID = city,
      u_SignUpDate = signup, u_AcquisitionChannelID = channel, u_ReferredBy = None,
      u_LastLoginDate = signup, u_IsActive = True, u_Preferences = ''{}''\<rparr>"

definition ex_restaurant :: "int \<Rightarrow> int \<Rightarrow> bool \<Rightarrow> restaurant" where
  "ex_restaurant i city active =
     \<lparr>r_RestaurantID = i, r_Name = ''KFC'', r_Address = ''2 Main Road'', r_CityID = city,
      r_Cuisine = ''Fast Food'', r_Rating = 4, r_OperatingHours = ''10:00 AM - 11:00 PM'',
      r_ContactNumber = ''000'', r_IsActive = active, r_OpeningDate = ''2020-01-01''\<rparr>"

definition ex_menu_item :: "int \<Rightarrow> int \<Rightarrow> rat \<Rightarrow> bool \<Rightarrow> menu_item" where
  "ex_menu_item i restaurant price available =
     \<lparr>m_MenuID = i, m_RestaurantID = restaurant, m_ItemName = ''Burger'',
      m_Description = ''A burger.'', m_Price = price, m_Category = ''Main Course'',
      m_CuisineType = ''Fast Food'', m_IsVegetarian = False, m_IsAvailable = available\<rparr>"

definition ex_config :: "int \<Rightarrow> int \<Rightarrow> config" where
  "ex_config target bots =
     \<lparr>start_date = 0, end_date = 0, target_total_orders = target, avg_items_per_order = 3 / 2,
      power_user_percentage = 20 / 100, weekend_only_user_percentage = 15 / 100,
      bot_users_count = bots\<rparr>"

definition ex_users :: "user list" where
  "ex_users = [ex_user 1 1 525600 1, ex_user 2 2 525600 5]"

definition ex_restaurants :: "restaurant list" where
  "ex_restaurants = [ex_restaurant 1 2 True, ex_restaurant 2 1 True, ex_restaurant 3 1 False]"

definition ex_menu :: "menu_item list" where
  "ex_menu = [ex_menu_item 1 2 (50025 / 100) True, ex_menu_item 2 2 (fl (12345 / 100)) False]"

definition ex_tape :: rng where
  "ex_tape = (\<lambda>i. if i = 6 then 2 else 0)"

definition ex_order_1 :: order where
  "ex_order_1 =
     \<lparr>o_OrderID = 1, o_UserID = 1, o_RestaurantID = 2, o_OrderTime = 1140, o_OrderDate = 0,
      o_OrderDay = ''Monday'', o_OrderHour = 19, o_TotalAmount = 50025 / 100, o_DeliveryFee = 0,
      o_DiscountAmount = fl (5003 / 100), o_FinalAmount = fl (45022 / 100),
      o_OrderStatus = ''Delivered'',
      o_DeliveryAddress = ''1 Main Road'', o_PaymentMethod = ''Credit Card''\<rparr>"

definition ex_line_1 :: order_item where
  "ex_line_1 =
     \<lparr>oi_OrderItemID = 1, oi_OrderID = 1, oi_MenuID = 1, oi_Quantity = 1,
      oi_ItemPrice = 50025 / 100, oi_Subtotal = 50025 / 100\<rparr>"

text \<open>
  A menu of two available items at 150.10 and 200.20, the draws that put both into one
  order, and that order with its two lines.
\<close>

definition ex_menu_pair :: "menu_item list" where
  "ex_menu_pair = [ex_menu_item 1 2 (fl (15010 / 100)) True,
                   ex_menu_item 2 2 (fl (20020 / 100)) True]"

definition ex_np_tape :: rng where
  "ex_np_tape = (\<lambda>i. if i = 1 then 5404319552844595 else 0)"

definition ex_order_pair :: order where
  "ex_order_pair =
     \<lparr>o_OrderID = 1, o_UserID = 1, o_RestaurantID = 2, o_OrderTime = 1140, o_OrderDate = 0,
      o_OrderDay = ''Monday'', o_OrderHour = 19, o_TotalAmount = fl (35030 / 100),
      o_DeliveryFee = 0, o_DiscountAmount = 0, o_FinalAmount = fl (35030 / 100),
      o_OrderStatus = ''Delivered'', o_DeliveryAddress = ''1 Main Road'',
      o_PaymentMethod = ''Credit Card''\<rparr>"

definition ex_lines_pair :: "order_item list" where
  "ex_lines_pair =
     [\<lparr>oi_OrderItemID = 1, oi_OrderID = 1, oi_MenuID = 1, oi_Quantity = 1,
       oi_ItemPrice = fl (15010 / 100), oi_Subtotal = fl (15010 / 100)\<rparr>,
      \<lparr>oi_OrderItemID = 2, oi_OrderID = 1, oi_MenuID = 2, oi_Quantity = 1,
       oi_ItemPrice = fl (20020 / 100), oi_Subtotal = fl (20020 / 100)\<rparr>]"

text \<open>A Delivered order placed at 12:00 on the first day and a Cancelled one after it.\<close>

definition ex_order :: "int \<Rightarrow> string \<Rightarrow> rat \<Rightarrow> order" where
  "ex_order i status amount =
     \<lparr>o_OrderID = i, o_UserID = 1, o_RestaurantID = 1, o_OrderTime = 720, o_OrderDate = 0,
      o_OrderDay = ''Monday'', o_OrderHour = 12, o_TotalAmount = amount, o_DeliveryFee = 0,
      o_DiscountAmount = 0, o_FinalAmount = amount, o_OrderStatus = status,
      o_DeliveryAddress = ''1 Main Road'', o_PaymentMethod = ''UPI''\<rparr>"

definition ex_two_orders :: "order list" where
  "ex_two_orders = [ex_order 1 ''Delivered'' 120, ex_order 2 ''Cancelled'' 80]"

definition ex_closed_restaurants :: "restaurant list" where
  "ex_closed_restaurants = [ex_restaurant 3 1 False]"

definition ex_closed_menu :: "menu_item list" where
  "ex_closed_menu = [ex_menu_item 3 3 100 True]"

definition ex_base :: string where
  "ex_base = ''/data''"

definition ex_world :: world where
  "ex_world =
     \<lparr>files = [''/data/1_csv_files/users.csv'' \<mapsto> UsersCsv ex_users,
               ''/data/1_csv_files/restaurants.csv'' \<mapsto> RestaurantsCsv ex_restaurants,
               ''/data/1_csv_files/menu.csv'' \<mapsto> MenuCsv ex_menu,
               ''/data/order_items.csv'' \<mapsto> OrderItemsCsv [ex_line_1]],
      stdout = [], random_state = (\<lambda>_. 7), np_random_state = (\<lambda>_. 7)\<rparr>"

definition ex_open_restaurants :: "restaurant list" where
  "ex_open_restaurants = [ex_restaurant 2 1 True]"

definition ex_three_lines :: "order_item list" where
  "ex_three_lines = [ex_line_1, ex_line_1\<lparr>oi_OrderItemID := 2\<rparr>, ex_line_1\<lparr>oi_OrderItemID := 3\<rparr>]"

definition ex_closed_kitchen :: "restaurant list" where
  "ex_closed_kitchen = [ex_restaurant 1 2 True]"

definition ex_cart_row :: "int \<Rightarrow> cart_item" where
  "ex_cart_row i = \<lparr>c_CartID = i, c_UserID = 1, c_RestaurantID = 2, c_MenuID = 1,
                    c_Quantity = 1, c_AddedAt = 1139, c_IsOrdered = True, c_OrderID = Some 1\<rparr>"

definition ex_abandoned_row :: cart_item where
  "ex_abandoned_row = \<lparr>c_CartID = 4, c_UserID = 1, c_RestaurantID = 2, c_MenuID = 1,
                    c_Quantity = 1, c_AddedAt = 0, c_IsOrdered = False, c_OrderID = None\<rparr>"

definition ex_rating_tape :: rng where
  "ex_rating_tape = (\<lambda>i. if i = 2 then 9007199254740991 else 0)"

definition ex_faker :: "string \<Rightarrow> faker" where
  "ex_faker a = (\<lambda>i. if i = 0 then a else ''x'')"

definition ex_metro_restaurant :: "string \<Rightarrow> restaurant" where
  "ex_metro_restaurant a =
     \<lparr>r_RestaurantID = 1, r_Name = ''The Great Kabab Factory - Mumbai 1'', r_Address = a,
      r_CityID = 1, r_Cuisine = ''North Indian'', r_Rating = 53 / 10,
      r_OperatingHours = ''10:00 AM - 11:00 PM'', r_ContactNumber = ''x'', r_IsActive = True,
      r_OpeningDate = ''x''\<rparr>"

definition ex_referral_users :: "user list" where
  "ex_referral_users = [ex_user 1 1 100 1, ex_user 2 2 50 5, ex_user 3 1 200 5]"

definition ex_referral :: referral where
  "ex_referral = \<lparr>rf_ReferralID = 1, rf_ReferrerUserID = 1, rf_ReferredUserID = 3,
                  rf_ReferralDate = 200, rf_RewardAmount = 50, rf_RewardStatus = ''Paid''\<rparr>"

section \<open>Facts about the primitives\<close>

lemma pow2_powi: "pow2 e = 2 powi e"
  by (simp add: pow2_def power_int_def field_simps)

lemma pow2_pos: "0 < pow2 e"
  by (simp add: pow2_powi)

lemma pow2_diff: "pow2 (a - b) = pow2 a / pow2 b"
  by (simp add: pow2_powi power_int_diff)

lemma round_half_even_error: "\<bar>of_int (round_half_even y) - y\<bar> \<le> 1 / 2"
proof -
  have "of_int \<lfloor>y\<rfloor> \<le> y" "y < of_int \<lfloor>y\<rfloor> + 1" by linarith+
  then show ?thesis
    by (auto simp: round_half_even_def Let_def abs_le_iff)
qed

lemma round2_error: "\<bar>round2 x - x\<bar> \<le> 1 / 200"
proof -
  define k where "k = (of_int (round_half_even (x * 100)) :: rat)"
  have k: "\<bar>k - x * 100\<bar> \<le> 1 / 2"
    unfolding k_def by (rule round_half_even_error)
  have "round2 x - x = (k - x * 100) / 100"
    by (simp add: round2_def k_def diff_divide_distrib)
  then have "\<bar>round2 x - x\<bar> = \<bar>(k - x * 100) / 100\<bar>" by (rule arg_cong)
  also have "\<dots> = \<bar>k - x * 100\<bar> / 100" by (simp only: abs_divide abs_numeral)
  also have "\<dots> \<le> (1 / 2) / 100" using k by (rule divide_right_mono) simp
  finally show ?thesis by simp
qed

lemma ilog2_lower:
  assumes "0 < a"
  shows "pow2 (ilog2 a) \<le> a"
proof -
  obtain p q where pq: "quotient_of a = (p, q)" by (cases "quotient_of a")
  have q: "0 < q" using quotient_of_denom_pos [OF pq] .
  have a: "a = of_int p / of_int q" using quotient_of_div [OF pq] .
  have p: "0 < p" using assms q unfolding a by (simp add: zero_less_divide_iff)
  let ?d = "bitlen p - bitlen q"
  show ?thesis
  proof (cases "pow2 ?d \<le> a")
    case True
    then show ?thesis by (simp add: ilog2_def pq Let_def)
  next
    case False
    have bp: "2 ^ nat (bitlen p - 1) \<le> p" using bitlen_bounds [OF p] by simp
    have bq: "q < 2 ^ nat (bitlen q)" using bitlen_bounds [OF q] by simp
    have lp: "0 \<le> bitlen p - 1" using p by (simp add: bitlen_def floorlog_def)
    have lq: "0 \<le> bitlen q" using q by (simp add: bitlen_def)
    have "(of_int (2 ^ nat (bitlen p - 1)) :: rat) \<le> of_int p" using bp by (simp only: of_int_le_iff)
    then have n: "pow2 (bitlen p - 1) \<le> of_int p" using lp by (simp add: pow2_def)
    have "(of_int q :: rat) < of_int (2 ^ nat (bitlen q))" using bq by (simp only: of_int_less_iff)
    then have m: "of_int q < pow2 (bitlen q)" using lq by (simp add: pow2_def)
    have "pow2 (?d - 1) = pow2 (bitlen p - 1) / pow2 (bitlen q)"
      using pow2_diff [of "bitlen p - 1" "bitlen q"] by (simp add: algebra_simps)
    also have "\<dots> \<le> of_int p / of_int q"
      using n m q pow2_pos [of "bitlen p - 1"] p
      by (intro frac_le) simp_all
    finally have "pow2 (?d - 1) \<le> a" unfolding a .
    then show ?thesis using False by (simp add: ilog2_def pq Let_def)
  qed
qed

text \<open>Rounding to a double moves a number by at most \<open>2^-53\<close> of its size.\<close>

lemma fl_error: "\<bar>fl x - x\<bar> \<le> \<bar>x\<bar> / 2 ^ 53"
proof (cases "x = 0")
  case True
  then show ?thesis by (simp add: fl_def)
next
  case False
  define e where "e = ilog2 \<bar>x\<bar> - 52"
  define y where "y = x / pow2 e"
  have pe: "0 < pow2 e" by (rule pow2_pos)
  have fx: "fl x = of_int (round_half_even y) * pow2 e"
    using False by (simp add: fl_def e_def y_def Let_def)
  have xy: "x = y * pow2 e" using pe by (simp add: y_def)
  have "fl x - x = (of_int (round_half_even y) - y) * pow2 e"
    unfolding fx by (subst xy) (simp add: algebra_simps)
  then have "\<bar>fl x - x\<bar> = \<bar>of_int (round_half_even y) - y\<bar> * pow2 e"
    using pe by (simp add: abs_mult)
  also have "\<dots> \<le> (1 / 2) * pow2 e"
    using round_half_even_error [of y] pe by (intro mult_right_mono) simp_all
  also have "\<dots> = pow2 (ilog2 \<bar>x\<bar>) / 2 ^ 53"
  proof -
    have "pow2 e = pow2 (ilog2 \<bar>x\<bar>) / pow2 52" unfolding e_def by (rule pow2_diff)
    then show ?thesis by (simp add: pow2_def)
  qed
  also have "\<dots> \<le> \<bar>x\<bar> / 2 ^ 53"
    using ilog2_lower [of "\<bar>x\<bar>"] False by (simp add: divide_right_mono)
  finally show ?thesis .
qed

lemma fl_zero [simp]: "fl 0 = 0"
  by (simp add: fl_def)

lemma fmul_zero [simp]: "fmul x 0 = 0"
  by (simp add: fmul_def)

lemma py_round2_zero [simp]: "py_round2 0 = 0"
  by (simp add: py_round2_def round2_def round_half_even_def)

lemma and_then_Inl [simp]: "and_then (Inl e) f = Inl e"
  by (simp add: and_then_def)

lemma and_then_Inr [simp]: "and_then (Inr x) f = f x"
  by (simp add: and_then_def)

lemma and_then_eq_Inr: "and_then m f = Inr y \<longleftrightarrow> (\<exists>x. m = Inr x \<and> f x = Inr y)"
  by (cases m) simp_all

lemma randint_range:
  assumes "a \<le> b" and "randint a b g = (v, g')"
  shows "a \<le> v \<and> v \<le> b"
proof -
  obtain d where v: "v = a + int d mod (b - a + 1)"
    using assms(2) by (auto simp: randint_def draw_def)
  have pos: "0 < b - a + 1" using assms(1) by simp
  have lo: "0 \<le> int d mod (b - a + 1)" by (rule pos_mod_sign [OF pos])
  have hi: "int d mod (b - a + 1) < b - a + 1" by (rule pos_mod_bound [OF pos])
  show ?thesis using v lo hi by linarith
qed

section \<open>The order generator: one pass of each loop body, and the invariant\<close>

lemma choice_mem: "choice xs g = Inr (x, g') \<Longrightarrow> x \<in> set xs"
  by (auto simp: choice_def split: if_splits prod.splits)

lemma sample1_mem: "sample1 xs g = Inr (x, g') \<Longrightarrow> x \<in> set xs"
  by (auto simp: sample1_def split: if_splits prod.splits)

lemma iloc0_mem: "iloc0 xs = Inr x \<Longrightarrow> x \<in> set xs"
  by (auto simp: iloc0_def split: list.splits)

lemma set_remove_nth_subset: "set (take i xs @ drop (Suc i) xs) \<subseteq> set xs"
  by (auto dest: in_set_takeD in_set_dropD)

lemma sample_n_spec:
  "sample_n xs n g = Inr (ys, g') \<Longrightarrow> set ys \<subseteq> set xs \<and> length ys = n"
proof (induction n arbitrary: xs g ys g')
  case 0
  then show ?case by simp
next
  case (Suc n)
  from Suc.prems have ne: "xs \<noteq> []" by (auto split: if_splits)
  obtain d g1 where dr: "draw g = (d, g1)" by (cases "draw g")
  let ?i = "d mod length xs"
  from Suc.prems ne dr obtain zs g2 where
    rec: "sample_n (take ?i xs @ drop (Suc ?i) xs) n g1 = Inr (zs, g2)"
    and ys: "ys = xs ! ?i # zs"
    by (auto simp: Let_def and_then_eq_Inr)
  have "?i < length xs" using ne by simp
  then have "xs ! ?i \<in> set xs" by simp
  moreover have "set zs \<subseteq> set xs \<and> length zs = n"
    using Suc.IH [OF rec] set_remove_nth_subset [of ?i xs] by blast
  ultimately show ?case using ys by simp
qed

lemma add_items_spec:
  "add_items sel oid oiid tot0 acc g = Inr (tot0', acc', oiid', g') \<Longrightarrow>
   \<exists>new. acc' = acc @ new \<and> tot0' = foldl fadd tot0 (map oi_Subtotal new)
         \<and> list_all2 (line_ok oid) new sel"
proof (induction sel arbitrary: oiid tot0 acc g)
  case Nil
  then show ?case by simp
next
  case (Cons item rest)
  from Cons.prems obtain q g1 where
    ch: "choice [1, 1, 1, 2::int] g = Inr (q, g1)"
    and rec: "add_items rest oid (oiid + 1) (fadd tot0 (fmul (m_Price item) (of_int q)))
                (acc @ [\<lparr>oi_OrderItemID = oiid, oi_OrderID = oid, oi_MenuID = m_MenuID item,
                         oi_Quantity = q, oi_ItemPrice = m_Price item,
                         oi_Subtotal = fmul (m_Price item) (of_int q)\<rparr>]) g1
              = Inr (tot0', acc', oiid', g')"
    by (auto simp: Let_def split: sum.splits)
  have q: "q = 1 \<or> q = 2" using choice_mem [OF ch] by auto
  from Cons.IH [OF rec] obtain new where
    new: "acc' = (acc @ [\<lparr>oi_OrderItemID = oiid, oi_OrderID = oid, oi_MenuID = m_MenuID item,
                         oi_Quantity = q, oi_ItemPrice = m_Price item,
                         oi_Subtotal = fmul (m_Price item) (of_int q)\<rparr>]) @ new"
    and tt: "tot0' = foldl fadd (fadd tot0 (fmul (m_Price item) (of_int q)))
                       (map oi_Subtotal new)"
    and all2: "list_all2 (line_ok oid) new rest"
    by blast
  let ?row = "\<lparr>oi_OrderItemID = oiid, oi_OrderID = oid, oi_MenuID = m_MenuID item,
                oi_Quantity = q, oi_ItemPrice = m_Price item,
                oi_Subtotal = fmul (m_Price item) (of_int q)\<rparr>"
  have "line_ok oid ?row item" using q by (auto simp: line_ok_def)
  then have "list_all2 (line_ok oid) (?row # new) (item # rest)" using all2 by simp
  moreover have "acc' = acc @ (?row # new)" using new by simp
  moreover have "tot0' = foldl fadd tot0 (map oi_Subtotal (?row # new))" using tt by simp
  ultimately show ?case by blast
qed

lemma round2_zero [simp]: "round2 0 = 0"
  by (simp add: round2_def round_half_even_def)

lemma get_order_hour_range:
  assumes "get_order_hour_with_peaks g = Inr (h, g')"
  shows "0 \<le> h \<and> h \<le> 23"
proof -
  obtain r g1 where r: "random g = (r, g1)" by (cases "random g")
  have a: "randint a b g1 = (h, g') \<Longrightarrow> 0 \<le> a \<Longrightarrow> a \<le> b \<Longrightarrow> b \<le> 23 \<Longrightarrow> ?thesis" for a b
    using randint_range [of a b g1 h g'] by linarith
  have b: "choice [23, 0, 1] g1 = Inr (h, g') \<Longrightarrow> ?thesis"
    using choice_mem [of "[23, 0, 1]" g1 h g'] by auto
  show ?thesis
    using assms r a [of 19 22] a [of 12 15] a [of 16 18] a [of 8 11] b
    by (simp add: get_order_hour_with_peaks_def split: if_splits)
qed

lemma replace_hm_day:
  assumes "0 \<le> h" "h \<le> 23" "0 \<le> m" "m \<le> 59"
  shows "replace_hm t h m div 1440 = t div 1440"
proof -
  have "0 \<le> h * 60 + m" "h * 60 + m < 1440" using assms by auto
  then have "(h * 60 + m) div 1440 = 0" by simp
  moreover have "replace_hm t h m = (h * 60 + m) + (t div 1440) * 1440"
    by (simp add: replace_hm_def)
  ultimately show ?thesis by simp
qed

lemma list_all2_left_mem:
  "list_all2 P xs ys \<Longrightarrow> x \<in> set xs \<Longrightarrow> \<exists>y \<in> set ys. P x y"
  by (induction xs ys rule: list_all2_induct) auto

lemma select_user_and_restaurant_spec:
  assumes "select_user_and_restaurant users_df restaurants_df pool g n
             = Inr (user_id, restaurant, g1, n1)"
  shows "user_id \<in> set pool \<and>
         (\<exists>u. iloc0 (filter (\<lambda>u. u_UserID u = user_id) users_df) = Inr u
            \<and> restaurant \<in> set restaurants_df \<and> r_IsActive restaurant
            \<and> ((\<exists>r' \<in> set restaurants_df. r_IsActive r' \<and> r_CityID r' = u_CityID u)
                   \<longrightarrow> r_CityID restaurant = u_CityID u))"
proof -
  from assms obtain g' where c1: "choice pool g = Inr (user_id, g')"
    by (auto simp: select_user_and_restaurant_def and_then_eq_Inr Let_def)
  from assms c1 obtain u where
    c2: "iloc0 (filter (\<lambda>u. u_UserID u = user_id) users_df) = Inr u"
    by (auto simp: select_user_and_restaurant_def and_then_eq_Inr Let_def)
  let ?local = "filter (\<lambda>r. r_CityID r = u_CityID u \<and> r_IsActive r) restaurants_df"
  let ?city = "if length ?local = 0 then filter r_IsActive restaurants_df else ?local"
  from assms c1 c2 obtain n' where c3: "sample1 ?city n = Inr (restaurant, n')"
    by (auto simp: select_user_and_restaurant_def and_then_eq_Inr Let_def)
  have rin: "restaurant \<in> set ?city" using sample1_mem [OF c3] .
  have "restaurant \<in> set restaurants_df \<and> r_IsActive restaurant
        \<and> ((\<exists>r' \<in> set restaurants_df. r_IsActive r' \<and> r_CityID r' = u_CityID u)
               \<longrightarrow> r_CityID restaurant = u_CityID u)"
    using rin by (auto simp: filter_empty_conv split: if_splits)
  then show ?thesis using choice_mem [OF c1] c2 by blast
qed

lemma order_iteration_cases:
  assumes "order_iteration users_df restaurants_df menu_df pw wk rg cur s = Inr s'"
  shows "(orders_data s' = orders_data s \<and> order_items_data s' = order_items_data s
          \<and> order_id s' = order_id s \<and> order_item_id s' = order_item_id s)
       \<or> (\<exists>ord its. orders_data s' = orders_data s @ [ord]
             \<and> order_items_data s' = order_items_data s @ its
             \<and> order_id s' = order_id s + 1
             \<and> o_OrderID ord = order_id s
             \<and> o_OrderTime ord div 1440 = cur div 1440
             \<and> daily_order users_df restaurants_df menu_df ord its)"
proof -
  let ?pool = "if 5 \<le> weekday cur then pw @ wk @ rg else pw @ rg"
  from assms obtain user_id restaurant g1 n1 where
    c1: "select_user_and_restaurant users_df restaurants_df ?pool (rnd s) (nprnd s)
           = Inr (user_id, restaurant, g1, n1)"
    by (auto simp: order_iteration_def and_then_eq_Inr)
  from select_user_and_restaurant_spec [OF c1] obtain user_row where
    c2: "iloc0 (filter (\<lambda>u. u_UserID u = user_id) users_df) = Inr user_row"
    and rin: "restaurant \<in> set restaurants_df" "r_IsActive restaurant"
    and city: "(\<exists>r' \<in> set restaurants_df. r_IsActive r' \<and> r_CityID r' = u_CityID user_row)
               \<longrightarrow> r_CityID restaurant = u_CityID user_row"
    by blast
  from assms c1 c2 obtain order_hour g2 where
    c4: "get_order_hour_with_peaks g1 = Inr (order_hour, g2)"
    by (auto simp: order_iteration_def and_then_eq_Inr Let_def)
  obtain order_minute g3 where c5: "randint 0 59 g2 = (order_minute, g3)"
    by (cases "randint 0 59 g2")
  let ?menu = "filter (\<lambda>m. m_RestaurantID m = r_RestaurantID restaurant \<and> m_IsAvailable m) menu_df"
  show ?thesis
  proof (cases "length ?menu = 0")
    case True
    then have "s' = s\<lparr>rnd := g3, nprnd := n1\<rparr>"
      using assms c1 c2 c4 c5 by (simp add: order_iteration_def Let_def)
    then show ?thesis by simp
  next
    case False
    obtain num_items n2 where
      c6: "np_choice_p [1, 2, 3, 4::nat] [55 / 100, 30 / 100, 10 / 100, 5 / 100] n1 = (num_items, n2)"
      by (cases "np_choice_p [1, 2, 3, 4::nat] [55 / 100, 30 / 100, 10 / 100, 5 / 100] n1")
    from assms c1 c2 c4 c5 c6 False obtain selected n3 where
      c7: "sample_n ?menu (min num_items (length ?menu)) n2 = Inr (selected, n3)"
      by (auto simp: order_iteration_def and_then_eq_Inr Let_def)
    from assms c1 c2 c4 c5 c6 c7 False obtain t its oiid' g4 where
      c8: "add_items selected (order_id s) (order_item_id s) 0 [] g3 = Inr (t, its, oiid', g4)"
      by (auto simp: order_iteration_def and_then_eq_Inr Let_def)
    from assms c1 c2 c4 c5 c6 c7 c8 False obtain fee g5 where
      c9: "choice [0, 0, 30, 40, 50, 60::rat] g4 = Inr (fee, g5)"
      by (auto simp: order_iteration_def and_then_eq_Inr Let_def)
    let ?disc = "if 500 < t
               then and_then (choice [0, 0, fl (10 / 100), fl (15 / 100)] g5)
                      (\<lambda>(c, g6). Inr (py_round2 (fmul t c), g6))
               else Inr (0, g5)"
    from assms c1 c2 c4 c5 c6 c7 c8 c9 False obtain disc g6 where
      c10: "?disc = Inr (disc, g6)"
      by (auto simp: order_iteration_def and_then_eq_Inr Let_def)
    from assms c1 c2 c4 c5 c6 c7 c8 c9 c10 False obtain status g7 where
      c11: "choice (replicate 90 ''Delivered'' @ replicate 10 ''Cancelled'') g6 = Inr (status, g7)"
      by (auto simp: order_iteration_def and_then_eq_Inr Let_def)
    from assms c1 c2 c4 c5 c6 c7 c8 c9 c10 c11 False obtain payment g8 where
      c12: "choice [''Credit Card'', ''Debit Card'', ''UPI'', ''UPI'', ''UPI'',
                       ''Cash on Delivery''] g7 = Inr (payment, g8)"
      by (auto simp: order_iteration_def and_then_eq_Inr Let_def)
    let ?ord = "\<lparr>o_OrderID = order_id s, o_UserID = user_id,
                 o_RestaurantID = r_RestaurantID restaurant,
                 o_OrderTime = replace_hm cur order_hour order_minute,
                 o_OrderDate = cur div 1440, o_OrderDay = day_name cur,
                 o_OrderHour = order_hour, o_TotalAmount = py_round2 t,
                 o_DeliveryFee = fee, o_DiscountAmount = disc,
                 o_FinalAmount = py_round2 (fsub (fadd t fee) disc), o_OrderStatus = status,
                 o_DeliveryAddress = u_Address user_row, o_PaymentMethod = payment\<rparr>"
    have s': "s' = s\<lparr>orders_data := orders_data s @ [?ord],
            order_items_data := order_items_data s @ its,
            order_id := order_id s + 1, order_item_id := oiid',
            rnd := g8, nprnd := n3\<rparr>"
      using assms c1 c2 c4 c5 c6 c7 c8 c9 c10 c11 c12 False
      by (simp add: order_iteration_def Let_def)
    have time: "o_OrderTime ?ord div 1440 = cur div 1440"
      using get_order_hour_range [OF c4] randint_range [OF _ c5]
      by (simp add: replace_hm_day)
    from add_items_spec [OF c8] have
      t: "t = float_sum (map oi_Subtotal its)"
      and all2: "list_all2 (line_ok (order_id s)) its selected"
      by (auto simp: float_sum_def)
    have sel: "set selected \<subseteq> set ?menu" using sample_n_spec [OF c7] by simp
    have lines: "lines_from_menu menu_df ?ord its"
      unfolding lines_from_menu_def
    proof
      fix i assume "i \<in> set its"
      then obtain m where "m \<in> set selected" "line_ok (order_id s) i m"
        using list_all2_left_mem [OF all2] by blast
      then show "\<exists>m \<in> set menu_df. m_IsAvailable m \<and> m_RestaurantID m = o_RestaurantID ?ord
                   \<and> line_ok (o_OrderID ?ord) i m"
        using sel by auto
    qed
    have rest: "restaurant_choice_ok users_df restaurants_df ?ord"
      unfolding restaurant_choice_ok_def
      using c2 rin city
      by (intro exI [of _ user_row] exI [of _ restaurant]) simp
    have fee: "fee \<in> {0, 30, 40, 50, 60}" using choice_mem [OF c9] by auto
    have disc: "disc = 0 \<or> 500 < t \<and> (disc = py_round2 (fmul t (fl (10 / 100)))
                                        \<or> disc = py_round2 (fmul t (fl (15 / 100))))"
    proof (cases "500 < t")
      case True
      with c10 obtain c where
        ch: "choice [0, 0, fl (10 / 100), fl (15 / 100)] g5 = Inr (c, g6)"
        and d: "disc = py_round2 (fmul t c)"
        by (auto simp: and_then_eq_Inr)
      have "c \<in> set [0, 0, fl (10 / 100), fl (15 / 100)]" using choice_mem [OF ch] .
      then consider "c = 0" | "c = fl (10 / 100)" | "c = fl (15 / 100)" by fastforce
      then show ?thesis
      proof cases
        case 1
        then show ?thesis using d by simp
      next
        case 2
        then show ?thesis using d True by blast
      next
        case 3
        then show ?thesis using d True by blast
      qed
    next
      case False
      with c10 show ?thesis by simp
    qed
    have "daily_order users_df restaurants_df menu_df ?ord its"
      unfolding daily_order_def Let_def using lines rest fee disc t by simp
    then show ?thesis using s' time by simp
  qed
qed

lemma bot_iteration_cases:
  assumes "bot_iteration users_df restaurants_df menu_df bot_user bot_date s = Inr s'"
  shows "(orders_data s' = orders_data s \<and> order_items_data s' = order_items_data s
          \<and> order_id s' = order_id s \<and> order_item_id s' = order_item_id s)
       \<or> (\<exists>ord its. orders_data s' = orders_data s @ [ord]
             \<and> order_items_data s' = order_items_data s @ its
             \<and> order_id s' = order_id s + 1
             \<and> o_OrderID ord = order_id s
             \<and> o_UserID ord = bot_user
             \<and> o_OrderTime ord div 1440 = bot_date div 1440
             \<and> bot_order restaurants_df menu_df ord its)"
proof -
  from assms obtain restaurant n1 where
    c1: "sample1 restaurants_df (nprnd s) = Inr (restaurant, n1)"
    by (auto simp: bot_iteration_def and_then_eq_Inr)
  let ?menu = "filter (\<lambda>m. m_RestaurantID m = r_RestaurantID restaurant \<and> m_IsAvailable m) menu_df"
  show ?thesis
  proof (cases "length ?menu = 0")
    case True
    then have "s' = s\<lparr>nprnd := n1\<rparr>"
      using assms c1 by (simp add: bot_iteration_def Let_def)
    then show ?thesis by simp
  next
    case False
    from assms c1 False obtain item n2 where
      c2: "sample1 ?menu n1 = Inr (item, n2)"
      by (auto simp: bot_iteration_def and_then_eq_Inr Let_def)
    obtain order_hour g1 where c3: "randint 0 23 (rnd s) = (order_hour, g1)"
      by (cases "randint 0 23 (rnd s)")
    obtain order_minute g2 where c4: "randint 0 59 g1 = (order_minute, g2)"
      by (cases "randint 0 59 g1")
    from assms c1 c2 c3 c4 False obtain address_row where
      c5: "iloc0 (filter (\<lambda>u. u_UserID u = bot_user) users_df) = Inr address_row"
      by (auto simp: bot_iteration_def and_then_eq_Inr Let_def)
    let ?ord = "\<lparr>o_OrderID = order_id s, o_UserID = bot_user,
                 o_RestaurantID = r_RestaurantID restaurant,
                 o_OrderTime = replace_hm bot_date order_hour order_minute,
                 o_OrderDate = bot_date div 1440, o_OrderDay = day_name bot_date,
                 o_OrderHour = order_hour, o_TotalAmount = m_Price item,
                 o_DeliveryFee = 0, o_DiscountAmount = 0,
                 o_FinalAmount = m_Price item, o_OrderStatus = ''Delivered'',
                 o_DeliveryAddress = u_Address address_row, o_PaymentMethod = ''UPI''\<rparr>"
    let ?line = "\<lparr>oi_OrderItemID = order_item_id s, oi_OrderID = order_id s,
                 oi_MenuID = m_MenuID item, oi_Quantity = 1, oi_ItemPrice = m_Price item,
                 oi_Subtotal = m_Price item\<rparr>"
    have s': "s' = s\<lparr>orders_data := orders_data s @ [?ord],
            order_items_data := order_items_data s @ [?line],
            order_id := order_id s + 1, order_item_id := order_item_id s + 1,
            rnd := g2, nprnd := n2\<rparr>"
      using assms c1 c2 c3 c4 c5 False by (simp add: bot_iteration_def Let_def)
    have time: "o_OrderTime ?ord div 1440 = bot_date div 1440"
      using randint_range [OF _ c3] randint_range [OF _ c4] by (simp add: replace_hm_day)
    have rin: "restaurant \<in> set restaurants_df" using sample1_mem [OF c1] .
    have iin: "item \<in> set ?menu" using sample1_mem [OF c2] .
    have "bot_line_ok (o_OrderID ?ord) ?line item" by (simp add: bot_line_ok_def)
    then have "bot_order restaurants_df menu_df ?ord [?line]"
      unfolding bot_order_def using rin iin by auto
    then show ?thesis using s' time by simp
  qed
qed

lemma orders_inv_initial: "orders_inv K (initial_state g n)"
  by (simp add: orders_inv_def initial_state_def)

lemma orders_inv_same:
  assumes "orders_inv K s" "orders_data s' = orders_data s"
    "order_items_data s' = order_items_data s" "order_id s' = order_id s"
  shows "orders_inv K s'"
  using assms by (simp add: orders_inv_def)

lemma orders_inv_mono:
  assumes "orders_inv K s" "\<And>ord its. ord \<in> set (orders_data s) \<Longrightarrow> K ord its \<Longrightarrow> K' ord its"
  shows "orders_inv K' s"
  using assms by (simp add: orders_inv_def)

lemma orders_inv_ids_lt:
  assumes "orders_inv K s" "ord \<in> set (orders_data s)"
  shows "o_OrderID ord < order_id s"
proof -
  have "o_OrderID ord \<in> set (map o_OrderID (orders_data s))" using assms(2) by simp
  then have "o_OrderID ord \<in> set (map int [1 ..< Suc (length (orders_data s))])"
    using assms(1) by (simp only: orders_inv_def)
  then obtain k where "k < Suc (length (orders_data s))" "o_OrderID ord = int k"
    unfolding set_map set_upt by auto
  moreover have "order_id s = int (length (orders_data s)) + 1"
    using assms(1) by (simp only: orders_inv_def)
  ultimately show ?thesis by simp
qed

lemma orders_inv_append:
  assumes inv: "orders_inv K s"
    and o': "orders_data s' = orders_data s @ [ord]"
    and i': "order_items_data s' = order_items_data s @ its"
    and id': "order_id s' = order_id s + 1"
    and oid: "o_OrderID ord = order_id s"
    and its: "\<forall>i \<in> set its. oi_OrderID i = order_id s"
    and K: "K ord its"
  shows "orders_inv K s'"
proof -
  have old_lt: "o_OrderID x < order_id s" if "x \<in> set (orders_data s)" for x
    using orders_inv_ids_lt [OF inv that] .
  have items_lt: "oi_OrderID i < order_id s" if "i \<in> set (order_items_data s)" for i
  proof -
    from inv that obtain x where "x \<in> set (orders_data s)" "oi_OrderID i = o_OrderID x"
      by (auto simp: orders_inv_def)
    then show ?thesis using old_lt by simp
  qed
  have ids: "map o_OrderID (orders_data s') = map int [1 ..< Suc (length (orders_data s'))]"
    using inv o' oid by (simp add: orders_inv_def)
  have cnt: "order_id s' = int (length (orders_data s')) + 1"
    using inv o' id' by (simp add: orders_inv_def)
  have ref: "\<forall>i \<in> set (order_items_data s'). oi_OrderID i \<in> o_OrderID ` set (orders_data s')"
    using inv o' i' its oid by (auto simp: orders_inv_def)
  have new: "filter (\<lambda>i. oi_OrderID i = o_OrderID ord) (order_items_data s') = its"
  proof -
    have "filter (\<lambda>i. oi_OrderID i = order_id s) (order_items_data s) = []"
      unfolding filter_empty_conv using items_lt by fastforce
    moreover have "filter (\<lambda>i. oi_OrderID i = order_id s) its = its"
      using its by (simp add: filter_id_conv)
    ultimately show ?thesis using i' oid by simp
  qed
  have old: "filter (\<lambda>i. oi_OrderID i = o_OrderID x) (order_items_data s')
             = filter (\<lambda>i. oi_OrderID i = o_OrderID x) (order_items_data s)"
    if "x \<in> set (orders_data s)" for x
  proof -
    have "filter (\<lambda>i. oi_OrderID i = o_OrderID x) its = []"
      unfolding filter_empty_conv using its old_lt [OF that] by fastforce
    then show ?thesis using i' by simp
  qed
  have facts: "\<forall>x \<in> set (orders_data s').
           K x (filter (\<lambda>i. oi_OrderID i = o_OrderID x) (order_items_data s'))"
    using inv o' new old K by (auto simp: orders_inv_def)
  show ?thesis unfolding orders_inv_def using ids cnt ref facts by blast
qed

lemma for_range_preserves:
  assumes step: "\<And>s s'. P s \<Longrightarrow> body s = Inr s' \<Longrightarrow> P s'"
  shows "P s \<Longrightarrow> for_range n body s = Inr s' \<Longrightarrow> P s'"
proof (induction n arbitrary: s)
  case 0
  then show ?case by simp
next
  case (Suc n)
  from Suc.prems(2) obtain s1 where b: "body s = Inr s1" and r: "for_range n body s1 = Inr s'"
    by (auto split: sum.splits)
  show ?case using Suc.IH [OF step [OF Suc.prems(1) b] r] .
qed

lemma daily_loop_preserves:
  "(\<And>cur s s'. P s \<Longrightarrow>
      order_iteration users_df restaurants_df menu_df pw wk rg cur s = Inr s' \<Longrightarrow> P s') \<Longrightarrow>
   P s \<Longrightarrow> daily_loop users_df restaurants_df menu_df cfg pw wk rg cur s = Inr s' \<Longrightarrow> P s'"
proof (induction users_df restaurants_df menu_df cfg pw wk rg cur s rule: daily_loop.induct)
  case (1 users_df restaurants_df menu_df cfg pw wk rg cur s)
  note step = "1.prems"(1)
  show ?case
  proof (cases "cur \<le> end_date cfg")
    case True
    from "1.prems"(3) True obtain s1 where
      day: "for_range (nat (daily_orders cfg cur))
              (order_iteration users_df restaurants_df menu_df pw wk rg cur) s = Inr s1"
      and rest: "daily_loop users_df restaurants_df menu_df cfg pw wk rg (cur + 1440) s1 = Inr s'"
      by (subst (asm) daily_loop.simps) (auto split: sum.splits)
    have s1: "P s1"
    proof (rule for_range_preserves [where P = P, OF _ "1.prems"(2) day])
      fix a b
      assume "P a" "order_iteration users_df restaurants_df menu_df pw wk rg cur a = Inr b"
      then show "P b" by (rule step)
    qed
    show ?thesis
    proof (rule "1.IH" [OF True day _ s1 rest])
      fix c a b
      assume "P a" "order_iteration users_df restaurants_df menu_df pw wk rg c a = Inr b"
      then show "P b" by (rule step)
    qed
  next
    case False
    then show ?thesis using "1.prems"(2,3) by (subst (asm) daily_loop.simps) simp
  qed
qed

lemma bot_pass_preserves:
  assumes step: "\<And>bot_user bot_date s s'. P s \<Longrightarrow>
      bot_iteration users_df restaurants_df menu_df bot_user bot_date s = Inr s' \<Longrightarrow> P s'"
    and rnd: "\<And>s g. P s \<Longrightarrow> P (s\<lparr>rnd := g\<rparr>)"
  shows "P s \<Longrightarrow> bot_pass users_df restaurants_df menu_df cfg bots s = Inr s' \<Longrightarrow> P s'"
proof (induction bots arbitrary: s)
  case Nil
  then show ?case by simp
next
  case (Cons bot_user rest)
  obtain k g1 where k: "randint 0 300 (rnd s) = (k, g1)" by (cases "randint 0 300 (rnd s)")
  obtain attempts g2 where a: "randint 50 100 g1 = (attempts, g2)" by (cases "randint 50 100 g1")
  from Cons.prems(2) k a obtain s1 where
    burst: "for_range (nat attempts)
              (bot_iteration users_df restaurants_df menu_df bot_user (start_date cfg + 1440 * k))
              (s\<lparr>rnd := g2\<rparr>) = Inr s1"
    and rest: "bot_pass users_df restaurants_df menu_df cfg rest s1 = Inr s'"
    by (auto split: sum.splits)
  have "P s1"
  proof (rule for_range_preserves [where P = P, OF _ rnd [OF Cons.prems(1)] burst])
    fix a b
    assume "P a" "bot_iteration users_df restaurants_df menu_df bot_user
                    (start_date cfg + 1440 * k) a = Inr b"
    then show "P b" by (rule step)
  qed
  then show ?case using Cons.IH rest by blast
qed

lemma order_iteration_inv:
  assumes inv: "orders_inv K s"
    and step: "order_iteration users_df restaurants_df menu_df pw wk rg cur s = Inr s'"
    and K: "\<And>ord its. daily_order users_df restaurants_df menu_df ord its \<Longrightarrow> K ord its"
  shows "orders_inv K s'"
proof -
  from order_iteration_cases [OF step] show ?thesis
  proof (elim disjE exE conjE)
    assume "orders_data s' = orders_data s" "order_items_data s' = order_items_data s"
      "order_id s' = order_id s"
    then show ?thesis using orders_inv_same [OF inv] by blast
  next
    fix ord its
    assume a: "orders_data s' = orders_data s @ [ord]"
      "order_items_data s' = order_items_data s @ its"
      "order_id s' = order_id s + 1" "o_OrderID ord = order_id s"
      and d: "daily_order users_df restaurants_df menu_df ord its"
    have ids: "\<forall>i \<in> set its. oi_OrderID i = order_id s"
      using d a(4) by (auto simp: daily_order_def lines_from_menu_def line_ok_def)
    show ?thesis by (rule orders_inv_append [OF inv a ids K [OF d]])
  qed
qed

lemma bot_iteration_inv:
  assumes inv: "orders_inv K s"
    and step: "bot_iteration users_df restaurants_df menu_df bot_user bot_date s = Inr s'"
    and K: "\<And>ord its. bot_order restaurants_df menu_df ord its \<Longrightarrow> K ord its"
  shows "orders_inv K s'"
proof -
  from bot_iteration_cases [OF step] show ?thesis
  proof (elim disjE exE conjE)
    assume "orders_data s' = orders_data s" "order_items_data s' = order_items_data s"
      "order_id s' = order_id s"
    then show ?thesis using orders_inv_same [OF inv] by blast
  next
    fix ord its
    assume a: "orders_data s' = orders_data s @ [ord]"
      "order_items_data s' = order_items_data s @ its"
      "order_id s' = order_id s + 1" "o_OrderID ord = order_id s"
      and d: "bot_order restaurants_df menu_df ord its"
    have ids: "\<forall>i \<in> set its. oi_OrderID i = order_id s"
      using d a(4) by (auto simp: bot_order_def bot_line_ok_def)
    show ?thesis by (rule orders_inv_append [OF inv a ids K [OF d]])
  qed
qed

lemma generate_daily_orders_inv:
  assumes "generate_daily_orders users_df restaurants_df menu_df cfg g n = Inr (bots, s)"
  shows "orders_inv (daily_order users_df restaurants_df menu_df) s"
proof -
  from assms obtain pw wk rg n' where
    loop: "daily_loop users_df restaurants_df menu_df cfg pw wk rg (start_date cfg)
             (initial_state g n') = Inr s"
    by (auto simp: generate_daily_orders_def and_then_eq_Inr)
  show ?thesis
  proof (rule daily_loop_preserves [where P = "orders_inv (daily_order users_df restaurants_df menu_df)",
        OF _ orders_inv_initial loop])
    fix cur a b
    assume "orders_inv (daily_order users_df restaurants_df menu_df) a"
      "order_iteration users_df restaurants_df menu_df pw wk rg cur a = Inr b"
    then show "orders_inv (daily_order users_df restaurants_df menu_df) b"
      by (rule order_iteration_inv) simp
  qed
qed

lemma generate_orders_inv:
  assumes "generate_orders users_df restaurants_df menu_df cfg g n = Inr s"
  shows "orders_inv (generated_order users_df restaurants_df menu_df) s"
proof -
  from assms obtain bots s0 where
    daily: "generate_daily_orders users_df restaurants_df menu_df cfg g n = Inr (bots, s0)"
    and bot: "bot_pass users_df restaurants_df menu_df cfg (take 25 bots) s0 = Inr s"
    by (auto simp: generate_orders_def and_then_eq_Inr)
  have s0: "orders_inv (generated_order users_df restaurants_df menu_df) s0"
    by (rule orders_inv_mono [OF generate_daily_orders_inv [OF daily]])
       (simp add: generated_order_def)
  show ?thesis
  proof (rule bot_pass_preserves [where P = "orders_inv (generated_order users_df restaurants_df menu_df)",
        OF _ _ s0 bot])
    fix bot_user bot_date a b
    assume "orders_inv (generated_order users_df restaurants_df menu_df) a"
      "bot_iteration users_df restaurants_df menu_df bot_user bot_date a = Inr b"
    then show "orders_inv (generated_order users_df restaurants_df menu_df) b"
      by (rule bot_iteration_inv) (simp add: generated_order_def)
  next
    fix a :: gen_state and g'
    assume "orders_inv (generated_order users_df restaurants_df menu_df) a"
    then show "orders_inv (generated_order users_df restaurants_df menu_df) (a\<lparr>rnd := g'\<rparr>)"
      by (simp add: orders_inv_def)
  qed
qed

section \<open>Two worked runs of the order generator\<close>

lemma choice_status:
  "choice (replicate 90 ''Delivered'' @ replicate 10 ''Cancelled'') g
     = Inr (if g 0 mod 100 < 90 then ''Delivered'' else ''Cancelled'', \<lambda>i. g (Suc i))"
  by (simp add: choice_def draw_def nth_append)

lemma choice_Cons:
  "choice (x # xs) g = Inr ((x # xs) ! (g 0 mod Suc (length xs)), \<lambda>i. g (Suc i))"
  by (simp add: choice_def draw_def)

lemma ex_cohorts:
  "select_cohorts ex_users (ex_config 365 0) n = Inr ([], [], [], [1, 2], n)"
  by (simp add: select_cohorts_def ex_users_def ex_config_def ex_user_def py_int_def
      sample_int_def Let_def)

text \<open>The double arithmetic of the two runs, evaluated.\<close>

lemma ex_amounts:
  "fmul (2001 / 4) 1 = 2001 / 4"
  "fadd 0 (2001 / 4) = 2001 / 4"
  "py_round2 (2001 / 4) = 2001 / 4"
  "py_round2 (fmul (2001 / 4) (fl (1 / 10))) = fl (5003 / 100)"
  "fadd (2001 / 4) 0 = 2001 / 4"
  "py_round2 (fsub (2001 / 4) (fl (5003 / 100))) = fl (22511 / 50)"
  by code_simp+

lemma ex_iteration:
  "order_iteration ex_users ex_restaurants ex_menu [] [] [1, 2] 0 (initial_state ex_tape (\<lambda>_. 0))
     = Inr \<lparr>orders_data = [ex_order_1], order_items_data = [ex_line_1], order_id = 2,
            order_item_id = 2, rnd = (\<lambda>_. 0), nprnd = (\<lambda>_. 0)\<rparr>"
  by (simp add: order_iteration_def select_user_and_restaurant_def ex_amounts choice_status
      choice_Cons initial_state_def ex_users_def ex_restaurants_def
      ex_menu_def ex_user_def ex_restaurant_def ex_menu_item_def ex_tape_def ex_order_1_def
      ex_line_1_def weekday_def iloc0_def sample1_def draw_def
      get_order_hour_with_peaks_def random_def randint_def replace_hm_def np_choice_p_def
      day_name_def Let_def)

lemma ex_daily_orders: "daily_orders (ex_config 365 0) 0 = 1"
  by code_simp

lemma ex_run:
  "generate_orders ex_users ex_restaurants ex_menu (ex_config 365 0) ex_tape (\<lambda>_. 0)
     = Inr \<lparr>orders_data = [ex_order_1], order_items_data = [ex_line_1], order_id = 2,
            order_item_id = 2, rnd = (\<lambda>_. 0), nprnd = (\<lambda>_. 0)\<rparr>"
proof -
  have e: "end_date (ex_config 365 0) = 0" "start_date (ex_config 365 0) = 0"
    by (simp_all add: ex_config_def)
  have loop: "daily_loop ex_users ex_restaurants ex_menu (ex_config 365 0) [] [] [1, 2] 0
                (initial_state ex_tape (\<lambda>_. 0))
     = Inr \<lparr>orders_data = [ex_order_1], order_items_data = [ex_line_1], order_id = 2,
            order_item_id = 2, rnd = (\<lambda>_. 0), nprnd = (\<lambda>_. 0)\<rparr>"
    by (subst daily_loop.simps, simp add: e ex_daily_orders ex_iteration,
        subst daily_loop.simps, simp add: e)
  show ?thesis
    by (simp add: generate_orders_def generate_daily_orders_def ex_cohorts e loop)
qed

lemma generated_lines:
  assumes run: "generate_orders users_df restaurants_df menu_df cfg g n = Inr s"
    and ord: "ord \<in> set (orders_data s)"
  shows "\<forall>i \<in> set (lines_of (order_items_data s) ord). \<exists>m \<in> set menu_df.
           line_ok (o_OrderID ord) i m \<or> bot_line_ok (o_OrderID ord) i m"
proof -
  have "generated_order users_df restaurants_df menu_df ord (lines_of (order_items_data s) ord)"
    using generate_orders_inv [OF run] ord by (simp add: orders_inv_def lines_of_def)
  then show ?thesis
    by (auto simp: generated_order_def daily_order_def lines_from_menu_def bot_order_def)
qed

section \<open>Delivery tracking\<close>

lemma delivery_row_times:
  assumes "delivery_row ord g = (row, g')"
  shows "d_OrderID row = o_OrderID ord \<and> o_OrderTime ord \<le> d_DispatchTime row
         \<and> d_DispatchTime row \<le> d_ActualDeliveryTime row"
proof -
  obtain dm g1 where r1: "randint 5 15 g = (dm, g1)" by (cases "randint 5 15 g")
  obtain em g2 where r2: "randint 20 40 g1 = (em, g2)" by (cases "randint 20 40 g1")
  obtain av g3 where r3: "randint (- 10) 15 g2 = (av, g3)" by (cases "randint (- 10) 15 g2")
  obtain r g4 where r4: "random g3 = (r, g4)" by (cases "random g3")
  obtain am g5 where r5: "randint 60 120 g4 = (am, g5)" by (cases "randint 60 120 g4")
  have b1: "5 \<le> dm" using randint_range [OF _ r1] by simp
  have b2: "20 \<le> em" using randint_range [OF _ r2] by simp
  have b3: "- 10 \<le> av" using randint_range [OF _ r3] by simp
  have b5: "60 \<le> am" using randint_range [OF _ r5] by simp
  show ?thesis
    using assms b1 b2 b3 b5
    by (auto simp: delivery_row_def r1 r2 r3 r4 r5 Let_def split: if_splits prod.splits)
qed

lemma generate_delivery_tracking_all2:
  "generate_delivery_tracking orders g = (rows, g') \<Longrightarrow>
   list_all2 (\<lambda>row ord. d_OrderID row = o_OrderID ord \<and> o_OrderTime ord \<le> d_DispatchTime row
                \<and> d_DispatchTime row \<le> d_ActualDeliveryTime row)
     rows (filter (\<lambda>ord. o_OrderStatus ord = ''Delivered'') orders)"
proof (induction orders arbitrary: g rows g')
  case Nil
  then show ?case by simp
next
  case (Cons ord rest)
  show ?case
  proof (cases "o_OrderStatus ord = ''Delivered''")
    case True
    obtain row g1 where dr: "delivery_row ord g = (row, g1)" by (cases "delivery_row ord g")
    obtain rows' g2 where gr: "generate_delivery_tracking rest g1 = (rows', g2)"
      by (cases "generate_delivery_tracking rest g1")
    have eq: "rows = row # rows'" using Cons.prems True dr gr by simp
    show ?thesis
      using True eq delivery_row_times [OF dr] Cons.IH [OF gr] by simp
  next
    case False
    then show ?thesis using Cons.prems Cons.IH by simp
  qed
qed

lemma list_all2_map_eq:
  "list_all2 P xs ys \<Longrightarrow> (\<And>x y. P x y \<Longrightarrow> f x = h y) \<Longrightarrow> map f xs = map h ys"
  by (induction xs ys rule: list_all2_induct) auto

lemma filter_id_count:
  "distinct (map f xs) \<Longrightarrow> x \<in> set xs \<Longrightarrow>
   length (filter (\<lambda>y. f y = f x) (filter P xs)) = (if P x then 1 else 0)"
proof (induction xs)
  case Nil
  then show ?case by simp
next
  case (Cons a xs)
  have none: "filter (\<lambda>y. f y = f x) (filter P xs) = []" if "a = x"
  proof -
    have "f x \<notin> f ` set xs" using Cons.prems(1) that by simp
    then have "\<forall>y \<in> set xs. f y \<noteq> f x" by (metis imageI)
    then show ?thesis by (simp add: filter_empty_conv)
  qed
  show ?case
  proof (cases "a = x")
    case True
    then show ?thesis using none by simp
  next
    case False
    then have xin: "x \<in> set xs" using Cons.prems(2) by simp
    have "f a \<noteq> f x" using Cons.prems(1) xin by auto
    then show ?thesis using Cons.IH [OF _ xin] Cons.prems(1) by (auto split: if_splits)
  qed
qed

text \<open>
  C4. The tracking rows are, in order, in one-to-one correspondence with the Delivered
  orders: each row carries its order's id, its dispatch time is not before the order time
  and its actual delivery time is not before its dispatch time. When order ids are unique
  (as the order generator makes them), an order has exactly one tracking row if its status
  is Delivered and none otherwise, so none if it is Cancelled.
\<close>

theorem delivery_tracking_times_and_counts:
  assumes "generate_delivery_tracking orders g = (rows, g')"
  shows "list_all2 (\<lambda>row ord. d_OrderID row = o_OrderID ord
                       \<and> o_OrderTime ord \<le> d_DispatchTime row
                       \<and> d_DispatchTime row \<le> d_ActualDeliveryTime row)
           rows (filter (\<lambda>ord. o_OrderStatus ord = ''Delivered'') orders)
         \<and> (distinct (map o_OrderID orders) \<longrightarrow>
              (\<forall>ord \<in> set orders.
                 length (filter (\<lambda>row. d_OrderID row = o_OrderID ord) rows)
                   = (if o_OrderStatus ord = ''Delivered'' then 1 else 0)))"
proof -
  let ?del = "filter (\<lambda>ord. o_OrderStatus ord = ''Delivered'') orders"
  have all2: "list_all2 (\<lambda>row ord. d_OrderID row = o_OrderID ord
                       \<and> o_OrderTime ord \<le> d_DispatchTime row
                       \<and> d_DispatchTime row \<le> d_ActualDeliveryTime row) rows ?del"
    using generate_delivery_tracking_all2 [OF assms] .
  have ids: "map d_OrderID rows = map o_OrderID ?del"
    by (rule list_all2_map_eq [OF all2]) simp
  have cnt: "length (filter (\<lambda>row. d_OrderID row = o_OrderID ord) rows)
           = (if o_OrderStatus ord = ''Delivered'' then 1 else 0)"
    if dist: "distinct (map o_OrderID orders)" and mem: "ord \<in> set orders" for ord
  proof -
    have "length (filter (\<lambda>row. d_OrderID row = o_OrderID ord) rows)
          = length (filter (\<lambda>i. i = o_OrderID ord) (map d_OrderID rows))"
      by (simp add: filter_map comp_def)
    also have "\<dots> = length (filter (\<lambda>y. o_OrderID y = o_OrderID ord) ?del)"
      by (simp add: ids filter_map comp_def)
    also have "\<dots> = (if o_OrderStatus ord = ''Delivered'' then 1 else 0)"
      using filter_id_count [OF dist mem, of "\<lambda>ord. o_OrderStatus ord = ''Delivered''"] .
    finally show ?thesis .
  qed
  show ?thesis using all2 cnt by blast
qed

theorem delivery_tracking_times_and_counts_witness:
  "generate_delivery_tracking ex_two_orders (\<lambda>_. 0)
     = ([\<lparr>d_DeliveryID = 1, d_OrderID = 1, d_DispatchTime = 725,
          d_EstimatedDeliveryTime = 745, d_ActualDeliveryTime = 785,
          d_ActualDeliveryMinutes = 60, d_DeliveryPartnerID = 1,
          d_DeliveryStatus = ''Delivered''\<rparr>], \<lambda>_. 0)
   \<and> distinct (map o_OrderID ex_two_orders)
   \<and> length (filter (\<lambda>row. d_OrderID row = 1)
               (fst (generate_delivery_tracking ex_two_orders (\<lambda>_. 0)))) = 1
   \<and> length (filter (\<lambda>row. d_OrderID row = 2)
               (fst (generate_delivery_tracking ex_two_orders (\<lambda>_. 0)))) = 0"
proof -
  have run: "generate_delivery_tracking ex_two_orders (\<lambda>_. 0)
     = ([\<lparr>d_DeliveryID = 1, d_OrderID = 1, d_DispatchTime = 725,
          d_EstimatedDeliveryTime = 745, d_ActualDeliveryTime = 785,
          d_ActualDeliveryMinutes = 60, d_DeliveryPartnerID = 1,
          d_DeliveryStatus = ''Delivered''\<rparr>], \<lambda>_. 0)"
    by (simp add: ex_two_orders_def ex_order_def delivery_row_def randint_def random_def draw_def)
  have dist: "distinct (map o_OrderID ex_two_orders)"
    by (simp add: ex_two_orders_def ex_order_def)
  show ?thesis
    using delivery_tracking_times_and_counts [OF run] dist run
    by (simp add: ex_two_orders_def ex_order_def)
qed

section \<open>Amounts of the generated orders\<close>

lemma ex_pair_amounts:
  "fmul (fl (1501 / 10)) 1 = fl (1501 / 10)"
  "fmul (fl (1001 / 5)) 1 = fl (1001 / 5)"
  "fadd 0 (fl (1501 / 10)) = fl (1501 / 10)"
  "\<not> 500 < fadd (fl (1501 / 10)) (fl (1001 / 5))"
  "py_round2 (fadd (fl (1501 / 10)) (fl (1001 / 5))) = fl (3503 / 10)"
  "fadd (fadd (fl (1501 / 10)) (fl (1001 / 5))) 0 = fadd (fl (1501 / 10)) (fl (1001 / 5))"
  "fsub (fadd (fl (1501 / 10)) (fl (1001 / 5))) 0 = fadd (fl (1501 / 10)) (fl (1001 / 5))"
  by code_simp+

lemma ex_pair_iteration:
  "order_iteration ex_users ex_restaurants ex_menu_pair [] [] [1, 2] 0
     (initial_state (\<lambda>_. 0) ex_np_tape)
     = Inr \<lparr>orders_data = [ex_order_pair], order_items_data = ex_lines_pair, order_id = 2,
            order_item_id = 3, rnd = (\<lambda>_. 0), nprnd = (\<lambda>_. 0)\<rparr>"
  by (simp add: order_iteration_def select_user_and_restaurant_def ex_pair_amounts choice_status
      choice_Cons initial_state_def ex_users_def ex_restaurants_def
      ex_menu_pair_def ex_user_def ex_restaurant_def ex_menu_item_def ex_np_tape_def
      ex_order_pair_def ex_lines_pair_def weekday_def iloc0_def sample1_def draw_def
      get_order_hour_with_peaks_def random_def randint_def replace_hm_def np_choice_p_def
      day_name_def Let_def)

lemma ex_pair_run:
  "generate_orders ex_users ex_restaurants ex_menu_pair (ex_config 365 0) (\<lambda>_. 0) ex_np_tape
     = Inr \<lparr>orders_data = [ex_order_pair], order_items_data = ex_lines_pair, order_id = 2,
            order_item_id = 3, rnd = (\<lambda>_. 0), nprnd = (\<lambda>_. 0)\<rparr>"
proof -
  have e: "end_date (ex_config 365 0) = 0" "start_date (ex_config 365 0) = 0"
    by (simp_all add: ex_config_def)
  have loop: "daily_loop ex_users ex_restaurants ex_menu_pair (ex_config 365 0) [] [] [1, 2] 0
                (initial_state (\<lambda>_. 0) ex_np_tape)
     = Inr \<lparr>orders_data = [ex_order_pair], order_items_data = ex_lines_pair, order_id = 2,
            order_item_id = 3, rnd = (\<lambda>_. 0), nprnd = (\<lambda>_. 0)\<rparr>"
    by (subst daily_loop.simps, simp add: e ex_daily_orders ex_pair_iteration,
        subst daily_loop.simps, simp add: e)
  show ?thesis
    by (simp add: generate_orders_def generate_daily_orders_def ex_cohorts e loop)
qed

lemma pow2_mono: "a \<le> b \<Longrightarrow> pow2 a \<le> pow2 b"
  by (simp add: pow2_powi power_int_increasing)

lemma pow2_Suc: "pow2 (e + 1) = 2 * pow2 e"
  by (simp add: pow2_powi power_int_add)

lemma ilog2_upper:
  assumes "0 < a"
  shows "a < pow2 (ilog2 a + 1)"
proof -
  obtain p q where pq: "quotient_of a = (p, q)" by (cases "quotient_of a")
  have q: "0 < q" using quotient_of_denom_pos [OF pq] .
  have a: "a = of_int p / of_int q" using quotient_of_div [OF pq] .
  have p: "0 < p" using assms q unfolding a by (simp add: zero_less_divide_iff)
  let ?d = "bitlen p - bitlen q"
  show ?thesis
  proof (cases "pow2 ?d \<le> a")
    case False
    then show ?thesis by (simp add: ilog2_def pq Let_def)
  next
    case True
    have bp: "p < 2 ^ nat (bitlen p)" using bitlen_bounds [OF p] by simp
    have bq: "2 ^ nat (bitlen q - 1) \<le> q" using bitlen_bounds [OF q] by simp
    have lp: "0 \<le> bitlen p" using p by (simp add: bitlen_def)
    have lq: "0 \<le> bitlen q - 1" using q by (simp add: bitlen_def floorlog_def)
    have "(of_int p :: rat) < of_int (2 ^ nat (bitlen p))" using bp by (simp only: of_int_less_iff)
    then have n: "of_int p < pow2 (bitlen p)" using lp by (simp add: pow2_def)
    have "(of_int (2 ^ nat (bitlen q - 1)) :: rat) \<le> of_int q" using bq by (simp only: of_int_le_iff)
    then have m: "pow2 (bitlen q - 1) \<le> of_int q" using lq by (simp add: pow2_def)
    have "of_int p / of_int q < pow2 (bitlen p) / pow2 (bitlen q - 1)"
      using n m p pow2_pos [of "bitlen q - 1"]
      by (intro frac_less) simp_all
    also have "\<dots> = pow2 (?d + 1)"
      using pow2_diff [of "bitlen p" "bitlen q - 1"] by (simp add: algebra_simps)
    finally have "a < pow2 (?d + 1)" unfolding a .
    then show ?thesis using True by (simp add: ilog2_def pq Let_def)
  qed
qed

lemma ilog2_unique:
  assumes "0 < a" "pow2 e \<le> a" "a < pow2 (e + 1)"
  shows "ilog2 a = e"
proof (rule antisym)
  show "ilog2 a \<le> e"
  proof (rule ccontr)
    assume "\<not> ilog2 a \<le> e"
    then have "e + 1 \<le> ilog2 a" by simp
    then have "pow2 (e + 1) \<le> pow2 (ilog2 a)" by (rule pow2_mono)
    then show False using ilog2_lower [OF assms(1)] assms(3) by simp
  qed
  show "e \<le> ilog2 a"
  proof (rule ccontr)
    assume "\<not> e \<le> ilog2 a"
    then have "ilog2 a + 1 \<le> e" by simp
    then have "pow2 (ilog2 a + 1) \<le> pow2 e" by (rule pow2_mono)
    then show False using ilog2_upper [OF assms(1)] assms(2) by simp
  qed
qed

text \<open>Doubling is exact.\<close>

lemma fl_twice: "fl (x * 2) = fl x * 2"
proof (cases "x = 0")
  case True
  then show ?thesis by simp
next
  case False
  then have a: "0 < \<bar>x\<bar>" by simp
  define e0 where "e0 = ilog2 \<bar>x\<bar> - 52"
  have "ilog2 (\<bar>x\<bar> * 2) = ilog2 \<bar>x\<bar> + 1"
  proof (rule ilog2_unique)
    show "0 < \<bar>x\<bar> * 2" using a by simp
    show "pow2 (ilog2 \<bar>x\<bar> + 1) \<le> \<bar>x\<bar> * 2"
      using ilog2_lower [OF a] by (simp add: pow2_Suc)
    have "pow2 (ilog2 \<bar>x\<bar> + 1 + 1) = 2 * pow2 (ilog2 \<bar>x\<bar> + 1)" by (rule pow2_Suc)
    then show "\<bar>x\<bar> * 2 < pow2 (ilog2 \<bar>x\<bar> + 1 + 1)"
      using ilog2_upper [OF a] by linarith
  qed
  then have e: "ilog2 \<bar>x * 2\<bar> - 52 = e0 + 1" by (simp add: abs_mult e0_def)
  have nz: "x * 2 \<noteq> 0" using False by simp
  have f2: "fl (x * 2) = of_int (round_half_even (x * 2 / pow2 (e0 + 1))) * pow2 (e0 + 1)"
    unfolding fl_def Let_def e using nz by (simp only: if_False)
  have f1: "fl x = of_int (round_half_even (x / pow2 e0)) * pow2 e0"
    unfolding fl_def Let_def e0_def using False by (simp only: if_False)
  have q: "x * 2 / pow2 (e0 + 1) = x / pow2 e0" by (simp add: pow2_Suc)
  show ?thesis unfolding f1 f2 q by (simp add: pow2_Suc)
qed

lemma double_product:
  assumes "fl p = p" and "q = 1 \<or> q = 2"
  shows "fmul p (of_int q) = p * of_int q"
  using assms fl_twice [of p] by (auto simp: fmul_def)

lemma py_round2_error: "\<bar>py_round2 x - x\<bar> \<le> 1 / 200 + (\<bar>x\<bar> + 1 / 200) / 2 ^ 53"
proof -
  define r where "r = round2 x"
  have a: "\<bar>fl r - r\<bar> \<le> \<bar>r\<bar> / 2 ^ 53" by (rule fl_error)
  have b: "\<bar>r - x\<bar> \<le> 1 / 200" unfolding r_def by (rule round2_error)
  have "\<bar>r\<bar> \<le> \<bar>x\<bar> + 1 / 200" using b by linarith
  then have "\<bar>r\<bar> / 2 ^ 53 \<le> (\<bar>x\<bar> + 1 / 200) / 2 ^ 53" by (simp add: divide_right_mono)
  then have "\<bar>fl r - r\<bar> \<le> (\<bar>x\<bar> + 1 / 200) / 2 ^ 53" using a by linarith
  moreover have "\<bar>fl r - x\<bar> \<le> \<bar>fl r - r\<bar> + \<bar>r - x\<bar>" by linarith
  ultimately show ?thesis using b unfolding py_round2_def r_def by linarith
qed



lemma generated_order_of_run:
  assumes run: "generate_orders users_df restaurants_df menu_df cfg g n = Inr s"
    and ord: "ord \<in> set (orders_data s)"
  shows "generated_order users_df restaurants_df menu_df ord (lines_of (order_items_data s) ord)"
  using generate_orders_inv [OF run] ord by (simp add: orders_inv_def lines_of_def)

lemma single_price_tolerance: "\<bar>p - fl p\<bar> \<le> 1 / 200 + (\<bar>fl p\<bar> + 1) / 2 ^ 52"
proof -
  define d where "d = \<bar>p - fl p\<bar>"
  define a where "a = \<bar>p\<bar>"
  define b where "b = \<bar>fl p\<bar>"
  have p: "(2::rat) ^ 53 = 9007199254740992" "(2::rat) ^ 52 = 4503599627370496" by simp_all
  have "\<bar>fl p - p\<bar> \<le> \<bar>p\<bar> / 2 ^ 53" by (rule fl_error)
  then have 1: "d \<le> a / 9007199254740992" unfolding d_def a_def p by linarith
  have 2: "a \<le> b + d" unfolding a_def b_def d_def by linarith
  have 3: "0 \<le> b" "0 \<le> d" by (simp_all add: b_def d_def)
  have "d \<le> 1 / 200 + (b + 1) / 4503599627370496"
    using 1 2 3 by (simp add: field_simps)
  then show ?thesis unfolding d_def b_def p .
qed

lemma total_amount_tolerance:
  "\<bar>py_round2 t - t\<bar> \<le> 1 / 200 + (\<bar>t\<bar> + 1) / 2 ^ 52"
proof -
  define e where "e = \<bar>py_round2 t - t\<bar>"
  define a where "a = \<bar>t\<bar>"
  have p: "(2::rat) ^ 53 = 9007199254740992" "(2::rat) ^ 52 = 4503599627370496" by simp_all
  have 1: "e \<le> 1 / 200 + (a + 1 / 200) / 9007199254740992"
    using py_round2_error [of t] unfolding e_def a_def p .
  have 2: "0 \<le> a" by (simp add: a_def)
  have "e \<le> 1 / 200 + (a + 1) / 4503599627370496" using 1 2 by (simp add: field_simps)
  then show ?thesis unfolding e_def a_def p .
qed

text \<open>
  Claim C3. Every line of a daily order has as \<open>Subtotal\<close> the double product of
  \<open>ItemPrice\<close> and \<open>Quantity\<close>, and the line of a bot order has quantity 1 and the price
  itself; when the price is a double, as every price read from the menu file is, the
  subtotal is exactly \<open>ItemPrice\<close> times \<open>Quantity\<close>. The \<open>TotalAmount\<close> of a daily order
  is not the sum of its subtotals but \<open>round(total_amount, 2)\<close> of the sum the loop
  accumulates in doubles, line after line; that of a bot order is its one subtotal. Either
  way it lies within half a cent, and the rounding of one double, of the accumulated sum.
\<close>

theorem order_item_subtotals_and_order_total:
  assumes run: "generate_orders users_df restaurants_df menu_df cfg g n = Inr s"
    and ord: "ord \<in> set (orders_data s)"
  shows "(\<forall>i \<in> set (lines_of (order_items_data s) ord).
            (oi_Subtotal i = fmul (oi_ItemPrice i) (of_int (oi_Quantity i))
             \<or> oi_Quantity i = 1 \<and> oi_Subtotal i = oi_ItemPrice i)
            \<and> (fl (oi_ItemPrice i) = oi_ItemPrice i
                  \<longrightarrow> oi_Subtotal i = oi_ItemPrice i * of_int (oi_Quantity i)))
         \<and> (o_TotalAmount ord
               = py_round2 (float_sum (map oi_Subtotal (lines_of (order_items_data s) ord)))
             \<or> (\<exists>i. lines_of (order_items_data s) ord = [i]
                   \<and> o_TotalAmount ord = oi_Subtotal i))
         \<and> \<bar>o_TotalAmount ord - float_sum (map oi_Subtotal (lines_of (order_items_data s) ord))\<bar>
               \<le> 1 / 200
                  + (\<bar>float_sum (map oi_Subtotal (lines_of (order_items_data s) ord))\<bar> + 1) / 2 ^ 52"
proof -
  let ?its = "lines_of (order_items_data s) ord"
  let ?t = "float_sum (map oi_Subtotal ?its)"
  have gen: "generated_order users_df restaurants_df menu_df ord ?its"
    by (rule generated_order_of_run [OF run ord])
  have lines: "(oi_Subtotal i = fmul (oi_ItemPrice i) (of_int (oi_Quantity i))
             \<or> oi_Quantity i = 1 \<and> oi_Subtotal i = oi_ItemPrice i)
            \<and> (fl (oi_ItemPrice i) = oi_ItemPrice i
                  \<longrightarrow> oi_Subtotal i = oi_ItemPrice i * of_int (oi_Quantity i))"
    if i: "i \<in> set ?its" for i
  proof -
    from generated_lines [OF run ord] i obtain m where
      "line_ok (o_OrderID ord) i m \<or> bot_line_ok (o_OrderID ord) i m" by blast
    then show ?thesis
    proof
      assume "line_ok (o_OrderID ord) i m"
      then have q: "oi_Quantity i = 1 \<or> oi_Quantity i = 2"
        and sub: "oi_Subtotal i = fmul (oi_ItemPrice i) (of_int (oi_Quantity i))"
        by (simp_all add: line_ok_def)
      have "oi_Subtotal i = oi_ItemPrice i * of_int (oi_Quantity i)"
        if "fl (oi_ItemPrice i) = oi_ItemPrice i"
        unfolding sub by (rule double_product [OF that q])
      with sub show ?thesis by blast
    next
      assume "bot_line_ok (o_OrderID ord) i m"
      then show ?thesis by (simp add: bot_line_ok_def)
    qed
  qed
  from gen have tot: "(o_TotalAmount ord = py_round2 ?t
             \<or> (\<exists>i. ?its = [i] \<and> o_TotalAmount ord = oi_Subtotal i))
         \<and> \<bar>o_TotalAmount ord - ?t\<bar> \<le> 1 / 200 + (\<bar>?t\<bar> + 1) / 2 ^ 52"
    unfolding generated_order_def
  proof
    assume "daily_order users_df restaurants_df menu_df ord ?its"
    then have "o_TotalAmount ord = py_round2 ?t" by (simp add: daily_order_def Let_def)
    then show ?thesis using total_amount_tolerance [of ?t] by simp
  next
    assume "bot_order restaurants_df menu_df ord ?its"
    then obtain i where i: "?its = [i]" "o_TotalAmount ord = oi_Subtotal i"
      by (auto simp: bot_order_def bot_line_ok_def)
    have "?t = fl (oi_Subtotal i)" using i(1) by (simp add: float_sum_def fadd_def)
    then have "\<bar>o_TotalAmount ord - ?t\<bar> \<le> 1 / 200 + (\<bar>?t\<bar> + 1) / 2 ^ 52"
      using single_price_tolerance [of "oi_Subtotal i"] i(2) by simp
    then show ?thesis using i by blast
  qed
  show ?thesis using lines tot by blast
qed

lemma ex_pair_doubles:
  "fl (fl (1501 / 10)) = fl (1501 / 10)"
  "fl (fl (1001 / 5)) = fl (1001 / 5)"
  "fl (1501 / 10) + fl (1001 / 5) \<noteq> fl (3503 / 10)"
  "fadd (fl (1501 / 10)) (fl (1001 / 5)) \<noteq> fl (3503 / 10)"
  by code_simp+

theorem order_item_subtotals_and_order_total_witness:
  "generate_orders ex_users ex_restaurants ex_menu_pair (ex_config 365 0) (\<lambda>_. 0) ex_np_tape
     = Inr \<lparr>orders_data = [ex_order_pair], order_items_data = ex_lines_pair, order_id = 2,
            order_item_id = 3, rnd = (\<lambda>_. 0), nprnd = (\<lambda>_. 0)\<rparr>
   \<and> lines_of ex_lines_pair ex_order_pair = ex_lines_pair
   \<and> length ex_lines_pair = 2
   \<and> list_all (\<lambda>i. oi_Subtotal i = oi_ItemPrice i * of_int (oi_Quantity i)) ex_lines_pair
   \<and> o_TotalAmount ex_order_pair = py_round2 (float_sum (map oi_Subtotal ex_lines_pair))"
proof -
  have l: "lines_of ex_lines_pair ex_order_pair = ex_lines_pair"
    by (simp add: lines_of_def ex_lines_pair_def ex_order_pair_def)
  have n: "length ex_lines_pair = 2" by (simp add: ex_lines_pair_def)
  have d: "\<forall>i \<in> set ex_lines_pair. fl (oi_ItemPrice i) = oi_ItemPrice i"
    by (simp add: ex_lines_pair_def ex_pair_doubles)
  note h = order_item_subtotals_and_order_total [OF ex_pair_run, of ex_order_pair]
  have "\<forall>i \<in> set ex_lines_pair. oi_Subtotal i = oi_ItemPrice i * of_int (oi_Quantity i)"
    using h d l by simp
  moreover have "\<not> (\<exists>i. ex_lines_pair = [i])"
  proof
    assume "\<exists>i. ex_lines_pair = [i]"
    then obtain i where "ex_lines_pair = [i]" ..
    then have "length ex_lines_pair = length [i]" by (rule arg_cong)
    with n show False by simp
  qed
  then have "o_TotalAmount ex_order_pair = py_round2 (float_sum (map oi_Subtotal ex_lines_pair))"
    using h l by simp
  ultimately show ?thesis using ex_pair_run l n by (simp add: list_all_iff)
qed

text \<open>
  The order of this run has the lines 150.10 and 200.20. Their sum is neither as a number
  nor as the program adds it the \<open>TotalAmount\<close> 350.30 of the order.
\<close>

theorem order_total_is_not_the_sum:
  "generate_orders ex_users ex_restaurants ex_menu_pair (ex_config 365 0) (\<lambda>_. 0) ex_np_tape
     = Inr \<lparr>orders_data = [ex_order_pair], order_items_data = ex_lines_pair, order_id = 2,
            order_item_id = 3, rnd = (\<lambda>_. 0), nprnd = (\<lambda>_. 0)\<rparr>
   \<and> lines_of ex_lines_pair ex_order_pair = ex_lines_pair
   \<and> sum_list (map oi_Subtotal ex_lines_pair) \<noteq> o_TotalAmount ex_order_pair
   \<and> float_sum (map oi_Subtotal ex_lines_pair) \<noteq> o_TotalAmount ex_order_pair"
proof -
  have l: "lines_of ex_lines_pair ex_order_pair = ex_lines_pair"
    by (simp add: lines_of_def ex_lines_pair_def ex_order_pair_def)
  have "sum_list (map oi_Subtotal ex_lines_pair) \<noteq> o_TotalAmount ex_order_pair"
    using ex_pair_doubles(3) by (simp add: ex_lines_pair_def ex_order_pair_def)
  moreover have "float_sum (map oi_Subtotal ex_lines_pair) \<noteq> o_TotalAmount ex_order_pair"
    using ex_pair_doubles(4)
    by (simp add: ex_lines_pair_def ex_order_pair_def float_sum_def ex_pair_amounts)
  ultimately show ?thesis using ex_pair_run l by blast
qed




section \<open>Restaurant selection and order ids in the daily loop\<close>

lemma get_order_hour_returns: "\<exists>h g'. get_order_hour_with_peaks g = Inr (h, g')"
proof -
  obtain r g1 where r: "random g = (r, g1)" by (cases "random g")
  have a: "\<exists>h g'. Inr (randint a b g1) = (Inr (h, g') :: py_error + int \<times> rng)" for a b
    by (cases "randint a b g1") simp
  have b: "\<exists>h g'. choice [23, 0, 1 :: int] g1 = Inr (h, g')"
    by (simp add: choice_Cons)
  show ?thesis using a b by (simp add: get_order_hour_with_peaks_def r)
qed

lemma order_iteration_skips:
  assumes sel: "select_user_and_restaurant users_df restaurants_df
                  (if 5 \<le> weekday cur then pw @ wk @ rg else pw @ rg) (rnd s) (nprnd s)
                = Inr (user_id, restaurant, g1, n1)"
    and empty: "filter (\<lambda>m. m_RestaurantID m = r_RestaurantID restaurant \<and> m_IsAvailable m)
                  menu_df = []"
  shows "\<exists>s'. order_iteration users_df restaurants_df menu_df pw wk rg cur s = Inr s'
           \<and> orders_data s' = orders_data s \<and> order_items_data s' = order_items_data s
           \<and> order_id s' = order_id s \<and> order_item_id s' = order_item_id s"
proof -
  obtain h g2 where h: "get_order_hour_with_peaks g1 = Inr (h, g2)"
    using get_order_hour_returns by blast
  obtain m g3 where m: "randint 0 59 g2 = (m, g3)" by (cases "randint 0 59 g2")
  have "order_iteration users_df restaurants_df menu_df pw wk rg cur s
          = Inr (s\<lparr>rnd := g3, nprnd := n1\<rparr>)"
    using sel empty h m by (simp add: order_iteration_def Let_def)
  then show ?thesis by simp
qed

lemma ex_daily_run:
  "generate_daily_orders ex_users ex_restaurants ex_menu (ex_config 365 0) ex_tape (\<lambda>_. 0)
     = Inr ([], \<lparr>orders_data = [ex_order_1], order_items_data = [ex_line_1], order_id = 2,
                 order_item_id = 2, rnd = (\<lambda>_. 0), nprnd = (\<lambda>_. 0)\<rparr>)"
proof -
  have e: "end_date (ex_config 365 0) = 0" "start_date (ex_config 365 0) = 0"
    by (simp_all add: ex_config_def)
  have loop: "daily_loop ex_users ex_restaurants ex_menu (ex_config 365 0) [] [] [1, 2] 0
                (initial_state ex_tape (\<lambda>_. 0))
     = Inr \<lparr>orders_data = [ex_order_1], order_items_data = [ex_line_1], order_id = 2,
            order_item_id = 2, rnd = (\<lambda>_. 0), nprnd = (\<lambda>_. 0)\<rparr>"
    by (subst daily_loop.simps, simp add: e ex_daily_orders ex_iteration,
        subst daily_loop.simps, simp add: e)
  show ?thesis
    by (simp add: generate_daily_orders_def ex_cohorts e loop)
qed

lemma ex_select_empty_menu:
  "select_user_and_restaurant ex_users ex_restaurants
     (if 5 \<le> weekday 0 then [] @ [] @ [1, 2] else [] @ [1, 2]) (\<lambda>_. 1) (\<lambda>_. 0)
     = Inr (2, ex_restaurant 1 2 True, \<lambda>_. 1, \<lambda>_. 0)"
  by (simp add: select_user_and_restaurant_def choice_Cons iloc0_def sample1_def draw_def
      ex_users_def ex_user_def ex_restaurants_def ex_restaurant_def weekday_def Let_def)

lemma ex_empty_menu:
  "filter (\<lambda>m. m_RestaurantID m = r_RestaurantID (ex_restaurant 1 2 True) \<and> m_IsAvailable m)
     ex_menu = []"
  by (simp add: ex_menu_def ex_menu_item_def ex_restaurant_def)

text \<open>
  C9. After the daily loop (before the bot-injection pass), every order's restaurant is an
  active row of the restaurants table and, whenever the table has an active restaurant in
  the city of the order's user, lies in that city. Order ids are 1, 2, ... in order of
  creation and the counter is one past the number of orders, so no id is spent on a skipped
  pass. A pass whose selected restaurant has no available menu item returns normally with
  both tables and both counters unchanged.
\<close>

theorem daily_order_restaurant_and_id_use:
  assumes run: "generate_daily_orders users_df restaurants_df menu_df cfg g n = Inr (bots, s)"
  shows "(\<forall>ord \<in> set (orders_data s).
            \<exists>u r. iloc0 (filter (\<lambda>u. u_UserID u = o_UserID ord) users_df) = Inr u
              \<and> r \<in> set restaurants_df \<and> r_RestaurantID r = o_RestaurantID ord
              \<and> r_IsActive r
              \<and> ((\<exists>r' \<in> set restaurants_df. r_IsActive r' \<and> r_CityID r' = u_CityID u)
                     \<longrightarrow> r_CityID r = u_CityID u))
       \<and> map o_OrderID (orders_data s) = map int [1 ..< Suc (length (orders_data s))]
       \<and> order_id s = int (length (orders_data s)) + 1
       \<and> (\<forall>pw wk rg cur s0 user_id restaurant g1 n1.
            select_user_and_restaurant users_df restaurants_df
              (if 5 \<le> weekday cur then pw @ wk @ rg else pw @ rg) (rnd s0) (nprnd s0)
              = Inr (user_id, restaurant, g1, n1)
            \<and> filter (\<lambda>m. m_RestaurantID m = r_RestaurantID restaurant \<and> m_IsAvailable m)
                  menu_df = []
            \<longrightarrow> (\<exists>s1. order_iteration users_df restaurants_df menu_df pw wk rg cur s0 = Inr s1
                   \<and> orders_data s1 = orders_data s0
                   \<and> order_items_data s1 = order_items_data s0
                   \<and> order_id s1 = order_id s0 \<and> order_item_id s1 = order_item_id s0))"
proof -
  have inv: "orders_inv (daily_order users_df restaurants_df menu_df) s"
    by (rule generate_daily_orders_inv [OF run])
  have a: "\<forall>ord \<in> set (orders_data s).
            \<exists>u r. iloc0 (filter (\<lambda>u. u_UserID u = o_UserID ord) users_df) = Inr u
              \<and> r \<in> set restaurants_df \<and> r_RestaurantID r = o_RestaurantID ord
              \<and> r_IsActive r
              \<and> ((\<exists>r' \<in> set restaurants_df. r_IsActive r' \<and> r_CityID r' = u_CityID u)
                     \<longrightarrow> r_CityID r = u_CityID u)"
  proof
    fix ord assume "ord \<in> set (orders_data s)"
    then have "restaurant_choice_ok users_df restaurants_df ord"
      using inv by (auto simp: orders_inv_def daily_order_def)
    then show "\<exists>u r. iloc0 (filter (\<lambda>u. u_UserID u = o_UserID ord) users_df) = Inr u
              \<and> r \<in> set restaurants_df \<and> r_RestaurantID r = o_RestaurantID ord
              \<and> r_IsActive r
              \<and> ((\<exists>r' \<in> set restaurants_df. r_IsActive r' \<and> r_CityID r' = u_CityID u)
                     \<longrightarrow> r_CityID r = u_CityID u)"
      unfolding restaurant_choice_ok_def .
  qed
  have b: "map o_OrderID (orders_data s) = map int [1 ..< Suc (length (orders_data s))]"
    and c: "order_id s = int (length (orders_data s)) + 1"
    using inv by (simp_all only: orders_inv_def)
  show ?thesis using a b c order_iteration_skips by blast
qed

theorem daily_order_restaurant_and_id_use_witness:
  "generate_daily_orders ex_users ex_restaurants ex_menu (ex_config 365 0) ex_tape (\<lambda>_. 0)
     = Inr ([], \<lparr>orders_data = [ex_order_1], order_items_data = [ex_line_1], order_id = 2,
                 order_item_id = 2, rnd = (\<lambda>_. 0), nprnd = (\<lambda>_. 0)\<rparr>)
   \<and> (\<exists>u r. iloc0 (filter (\<lambda>u. u_UserID u = o_UserID ex_order_1) ex_users) = Inr u
          \<and> r \<in> set ex_restaurants \<and> r_RestaurantID r = o_RestaurantID ex_order_1
          \<and> r_IsActive r \<and> r_CityID r = u_CityID u)
   \<and> map o_OrderID [ex_order_1] = [1]
   \<and> select_user_and_restaurant ex_users ex_restaurants
        (if 5 \<le> weekday 0 then [] @ [] @ [1, 2] else [] @ [1, 2]) (\<lambda>_. 1) (\<lambda>_. 0)
        = Inr (2, ex_restaurant 1 2 True, \<lambda>_. 1, \<lambda>_. 0)
   \<and> filter (\<lambda>m. m_RestaurantID m = r_RestaurantID (ex_restaurant 1 2 True) \<and> m_IsAvailable m)
        ex_menu = []
   \<and> (\<exists>s1. order_iteration ex_users ex_restaurants ex_menu [] [] [1, 2] 0
               (initial_state (\<lambda>_. 1) (\<lambda>_. 0)) = Inr s1
          \<and> orders_data s1 = [] \<and> order_items_data s1 = []
          \<and> order_id s1 = 1 \<and> order_item_id s1 = 1)"
proof -
  note h = daily_order_restaurant_and_id_use [OF ex_daily_run]
  have sel: "select_user_and_restaurant ex_users ex_restaurants
        (if 5 \<le> weekday 0 then [] @ [] @ [1, 2] else [] @ [1, 2])
        (rnd (initial_state (\<lambda>_. 1) (\<lambda>_. 0))) (nprnd (initial_state (\<lambda>_. 1) (\<lambda>_. 0)))
        = Inr (2, ex_restaurant 1 2 True, \<lambda>_. 1, \<lambda>_. 0)"
    using ex_select_empty_menu by (simp add: initial_state_def)
  from h have skip: "\<exists>s1. order_iteration ex_users ex_restaurants ex_menu [] [] [1, 2] 0
               (initial_state (\<lambda>_. 1) (\<lambda>_. 0)) = Inr s1
          \<and> orders_data s1 = orders_data (initial_state (\<lambda>_. 1) (\<lambda>_. 0))
          \<and> order_items_data s1 = order_items_data (initial_state (\<lambda>_. 1) (\<lambda>_. 0))
          \<and> order_id s1 = order_id (initial_state (\<lambda>_. 1) (\<lambda>_. 0))
          \<and> order_item_id s1 = order_item_id (initial_state (\<lambda>_. 1) (\<lambda>_. 0))"
    using sel ex_empty_menu by blast
  from h have rest: "\<exists>u r. iloc0 (filter (\<lambda>u. u_UserID u = o_UserID ex_order_1) ex_users) = Inr u
          \<and> r \<in> set ex_restaurants \<and> r_RestaurantID r = o_RestaurantID ex_order_1
          \<and> r_IsActive r
          \<and> ((\<exists>r' \<in> set ex_restaurants. r_IsActive r' \<and> r_CityID r' = u_CityID u)
                 \<longrightarrow> r_CityID r = u_CityID u)"
    by simp
  then obtain u r where
    u: "iloc0 (filter (\<lambda>u. u_UserID u = o_UserID ex_order_1) ex_users) = Inr u"
    and r: "r \<in> set ex_restaurants" "r_RestaurantID r = o_RestaurantID ex_order_1" "r_IsActive r"
    and c: "(\<exists>r' \<in> set ex_restaurants. r_IsActive r' \<and> r_CityID r' = u_CityID u)
                 \<longrightarrow> r_CityID r = u_CityID u"
    by blast
  have "u_CityID u = 1"
    using u by (simp add: iloc0_def ex_users_def ex_user_def ex_order_1_def) (auto)
  then have "\<exists>r' \<in> set ex_restaurants. r_IsActive r' \<and> r_CityID r' = u_CityID u"
    by (simp add: ex_restaurants_def ex_restaurant_def)
  then have "r_CityID r = u_CityID u" using c by blast
  then have rest': "\<exists>u r. iloc0 (filter (\<lambda>u. u_UserID u = o_UserID ex_order_1) ex_users) = Inr u
          \<and> r \<in> set ex_restaurants \<and> r_RestaurantID r = o_RestaurantID ex_order_1
          \<and> r_IsActive r \<and> r_CityID r = u_CityID u"
    using u r by blast
  have ids: "map o_OrderID [ex_order_1] = [1]" by (simp add: ex_order_1_def)
  from skip have skip': "\<exists>s1. order_iteration ex_users ex_restaurants ex_menu [] [] [1, 2] 0
               (initial_state (\<lambda>_. 1) (\<lambda>_. 0)) = Inr s1
          \<and> orders_data s1 = [] \<and> order_items_data s1 = []
          \<and> order_id s1 = 1 \<and> order_item_id s1 = 1"
    by (simp add: initial_state_def)
  show ?thesis
    using ex_daily_run rest' ids ex_select_empty_menu ex_empty_menu skip' by blast
qed

section \<open>Orders and the signup date of their user\<close>

lemma ex_bot_cohorts:
  "select_cohorts ex_users (ex_config 0 1) (\<lambda>_. 0) = Inr ([], [], [1], [2], \<lambda>_. 0)"
  by (simp add: select_cohorts_def ex_users_def ex_config_def ex_user_def py_int_def
      sample_int_def draw_def Let_def)

lemma ex_bot_iteration:
  assumes "rnd s = (\<lambda>_. 0)" "nprnd s = (\<lambda>_. 0)"
  shows "bot_iteration ex_users ex_closed_restaurants ex_closed_menu 1 0 s
   = Inr (s\<lparr>orders_data := orders_data s @
               [\<lparr>o_OrderID = order_id s, o_UserID = 1, o_RestaurantID = 3, o_OrderTime = 0,
                 o_OrderDate = 0, o_OrderDay = ''Monday'', o_OrderHour = 0,
                 o_TotalAmount = 100, o_DeliveryFee = 0, o_DiscountAmount = 0,
                 o_FinalAmount = 100, o_OrderStatus = ''Delivered'',
                 o_DeliveryAddress = ''1 Main Road'', o_PaymentMethod = ''UPI''\<rparr>],
            order_items_data := order_items_data s @
               [\<lparr>oi_OrderItemID = order_item_id s, oi_OrderID = order_id s,
                 oi_MenuID = 3, oi_Quantity = 1, oi_ItemPrice = 100, oi_Subtotal = 100\<rparr>],
            order_id := order_id s + 1, order_item_id := order_item_id s + 1\<rparr>)"
  using assms
  by (simp add: bot_iteration_def ex_users_def ex_user_def ex_closed_restaurants_def
      ex_closed_menu_def ex_restaurant_def ex_menu_item_def sample1_def draw_def randint_def
      replace_hm_def iloc0_def day_name_def weekday_def Let_def)

lemma ex_bot_burst:
  "rnd s = (\<lambda>_. 0) \<Longrightarrow> nprnd s = (\<lambda>_. 0) \<Longrightarrow>
   \<exists>s'. for_range k (bot_iteration ex_users ex_closed_restaurants ex_closed_menu 1 0) s = Inr s'
     \<and> length (orders_data s') = length (orders_data s) + k
     \<and> (\<forall>ord \<in> set (orders_data s'). ord \<in> set (orders_data s)
           \<or> o_UserID ord = 1 \<and> o_RestaurantID ord = 3 \<and> o_OrderTime ord = 0)"
proof (induction k arbitrary: s)
  case 0
  then show ?case by simp
next
  case (Suc k)
  let ?s1 = "s\<lparr>orders_data := orders_data s @
               [\<lparr>o_OrderID = order_id s, o_UserID = 1, o_RestaurantID = 3, o_OrderTime = 0,
                 o_OrderDate = 0, o_OrderDay = ''Monday'', o_OrderHour = 0,
                 o_TotalAmount = 100, o_DeliveryFee = 0, o_DiscountAmount = 0,
                 o_FinalAmount = 100, o_OrderStatus = ''Delivered'',
                 o_DeliveryAddress = ''1 Main Road'', o_PaymentMethod = ''UPI''\<rparr>],
            order_items_data := order_items_data s @
               [\<lparr>oi_OrderItemID = order_item_id s, oi_OrderID = order_id s,
                 oi_MenuID = 3, oi_Quantity = 1, oi_ItemPrice = 100, oi_Subtotal = 100\<rparr>],
            order_id := order_id s + 1, order_item_id := order_item_id s + 1\<rparr>"
  have step: "bot_iteration ex_users ex_closed_restaurants ex_closed_menu 1 0 s = Inr ?s1"
    by (rule ex_bot_iteration [OF Suc.prems])
  have "rnd ?s1 = (\<lambda>_. 0)" "nprnd ?s1 = (\<lambda>_. 0)" using Suc.prems by simp_all
  from Suc.IH [OF this] obtain s' where
    r: "for_range k (bot_iteration ex_users ex_closed_restaurants ex_closed_menu 1 0) ?s1 = Inr s'"
    and l: "length (orders_data s') = length (orders_data ?s1) + k"
    and a: "\<forall>ord \<in> set (orders_data s'). ord \<in> set (orders_data ?s1)
           \<or> o_UserID ord = 1 \<and> o_RestaurantID ord = 3 \<and> o_OrderTime ord = 0"
    by blast
  have "for_range (Suc k) (bot_iteration ex_users ex_closed_restaurants ex_closed_menu 1 0) s
          = Inr s'"
    using step r by simp
  moreover have "length (orders_data s') = length (orders_data s) + Suc k" using l by simp
  moreover have "\<forall>ord \<in> set (orders_data s'). ord \<in> set (orders_data s)
           \<or> o_UserID ord = 1 \<and> o_RestaurantID ord = 3 \<and> o_OrderTime ord = 0"
    using a by auto
  ultimately show ?case by blast
qed

lemma ex_bot_run:
  "\<exists>s. generate_orders ex_users ex_closed_restaurants ex_closed_menu (ex_config 0 1)
          (\<lambda>_. 0) (\<lambda>_. 0) = Inr s
     \<and> length (orders_data s) = 50
     \<and> (\<forall>ord \<in> set (orders_data s).
           o_UserID ord = 1 \<and> o_RestaurantID ord = 3 \<and> o_OrderTime ord = 0)"
proof -
  have e: "end_date (ex_config 0 1) = 0" "start_date (ex_config 0 1) = 0"
    by (simp_all add: ex_config_def)
  have d: "daily_orders (ex_config 0 1) 0 = 0"
    by code_simp
  have loop: "daily_loop ex_users ex_closed_restaurants ex_closed_menu (ex_config 0 1) [] [] [2] 0
                (initial_state (\<lambda>_. 0) (\<lambda>_. 0)) = Inr (initial_state (\<lambda>_. 0) (\<lambda>_. 0))"
    by (subst daily_loop.simps, simp add: e d, subst daily_loop.simps, simp add: e)
  have daily: "generate_daily_orders ex_users ex_closed_restaurants ex_closed_menu (ex_config 0 1)
                 (\<lambda>_. 0) (\<lambda>_. 0) = Inr ([1], initial_state (\<lambda>_. 0) (\<lambda>_. 0))"
    by (simp add: generate_daily_orders_def ex_bot_cohorts e loop)
  have r: "randint 0 300 (\<lambda>_. 0) = (0, \<lambda>_. 0)" "randint 50 100 (\<lambda>_. 0) = (50, \<lambda>_. 0)"
    by (simp_all add: randint_def draw_def)
  from ex_bot_burst [of "initial_state (\<lambda>_. 0) (\<lambda>_. 0)" "nat 50"] obtain s where
    b: "for_range (nat 50) (bot_iteration ex_users ex_closed_restaurants ex_closed_menu 1 0)
          (initial_state (\<lambda>_. 0) (\<lambda>_. 0)) = Inr s"
    and l: "length (orders_data s) = 50"
    and a: "\<forall>ord \<in> set (orders_data s).
           o_UserID ord = 1 \<and> o_RestaurantID ord = 3 \<and> o_OrderTime ord = 0"
    by (auto simp: initial_state_def)
  have same: "initial_state (\<lambda>_. 0) (\<lambda>_. 0)\<lparr>rnd := \<lambda>_. 0\<rparr> = initial_state (\<lambda>_. 0) (\<lambda>_. 0)"
    by (simp add: initial_state_def)
  have "generate_orders ex_users ex_closed_restaurants ex_closed_menu (ex_config 0 1)
          (\<lambda>_. 0) (\<lambda>_. 0) = Inr s"
    using b by (simp add: generate_orders_def daily e r same initial_state_def)
  then show ?thesis using l a by blast
qed

text \<open>
  Claim C10. Nothing in the generator compares an order's time with the signup date of the
  user it is placed for.  In the first run below the daily loop gives user 1, who signs up
  on minute 525600, an order at minute 1140.  In the second run no daily order is made, no
  restaurant of the table is active, and the bot pass still places its burst of 50 orders,
  all for the bot user 1 at the inactive restaurant 3, on a day before the user's signup.
\<close>

theorem orders_may_predate_signup:
  "(\<exists>s. generate_orders ex_users ex_restaurants ex_menu (ex_config 365 0) ex_tape (\<lambda>_. 0) = Inr s
      \<and> (\<exists>ord \<in> set (orders_data s). \<exists>u \<in> set ex_users.
            u_UserID u = o_UserID ord \<and> o_OrderTime ord < u_SignUpDate u))
   \<and> (\<exists>s. generate_orders ex_users ex_closed_restaurants ex_closed_menu (ex_config 0 1)
            (\<lambda>_. 0) (\<lambda>_. 0) = Inr s
      \<and> length (orders_data s) = 50
      \<and> list_all (\<lambda>r. \<not> r_IsActive r) ex_closed_restaurants
      \<and> list_all (\<lambda>ord. o_RestaurantID ord \<in> set (map r_RestaurantID ex_closed_restaurants)
            \<and> (\<exists>u \<in> set ex_users.
                 u_UserID u = o_UserID ord \<and> o_OrderTime ord < u_SignUpDate u))
          (orders_data s))"
proof -
  have "\<exists>ord \<in> set [ex_order_1]. \<exists>u \<in> set ex_users.
            u_UserID u = o_UserID ord \<and> o_OrderTime ord < u_SignUpDate u"
    by (simp add: ex_order_1_def ex_users_def ex_user_def)
  then have a: "\<exists>s. generate_orders ex_users ex_restaurants ex_menu (ex_config 365 0) ex_tape
                  (\<lambda>_. 0) = Inr s
      \<and> (\<exists>ord \<in> set (orders_data s). \<exists>u \<in> set ex_users.
            u_UserID u = o_UserID ord \<and> o_OrderTime ord < u_SignUpDate u)"
    by (simp add: ex_run)
  from ex_bot_run obtain s where
    r: "generate_orders ex_users ex_closed_restaurants ex_closed_menu (ex_config 0 1)
          (\<lambda>_. 0) (\<lambda>_. 0) = Inr s"
    and l: "length (orders_data s) = 50"
    and o: "\<forall>ord \<in> set (orders_data s).
           o_UserID ord = 1 \<and> o_RestaurantID ord = 3 \<and> o_OrderTime ord = 0"
    by blast
  have c: "list_all (\<lambda>r. \<not> r_IsActive r) ex_closed_restaurants"
    by (simp add: ex_closed_restaurants_def ex_restaurant_def)
  have "list_all (\<lambda>ord. o_RestaurantID ord \<in> set (map r_RestaurantID ex_closed_restaurants)
            \<and> (\<exists>u \<in> set ex_users.
                 u_UserID u = o_UserID ord \<and> o_OrderTime ord < u_SignUpDate u))
          (orders_data s)"
    using o by (simp add: list_all_iff ex_closed_restaurants_def ex_restaurant_def ex_users_def
        ex_user_def)
  with r l c a show ?thesis by blast
qed

section \<open>Stage 3: the input checks\<close>

lemma check_files_find:
  "check_files prefix dir fs w =
     (case find (\<lambda>q. files w q = None) (map (path_join dir) fs) of
        None \<Rightarrow> Inr () | Some q \<Rightarrow> Inl (FileNotFoundError (prefix @ q)))"
  by (induction fs) (simp_all add: path_exists_def Let_def)

lemma find_append_cases:
  "find P (xs @ ys) = (case find P xs of None \<Rightarrow> find P ys | Some x \<Rightarrow> Some x)"
  by (induction xs) simp_all

lemma find_None_set: "find P xs = None \<longleftrightarrow> (\<forall>x \<in> set xs. \<not> P x)"
  by (induction xs) simp_all

lemma stage3_first_missing:
  assumes "find (\<lambda>q. files w q = None) (required_paths BASE_DIR) = Some q"
  shows "\<exists>prefix \<in> {''Missing master file: '', ''Missing transaction file: ''}.
           stage3 seed np_seed cfg BASE_DIR w = (Some (FileNotFoundError (prefix @ q)), w)"
proof (cases "find (\<lambda>q. files w q = None)
                (map (path_join (path_join BASE_DIR ''1_csv_files'')) required_master)")
  case None
  then have "find (\<lambda>q. files w q = None) (map (path_join BASE_DIR) required_txn) = Some q"
    using assms by (simp add: required_paths_def find_append_cases)
  then have "stage3 seed np_seed cfg BASE_DIR w
               = (Some (FileNotFoundError (''Missing transaction file: '' @ q)), w)"
    using None by (simp add: stage3_def try_step_def check_files_find Let_def)
  then show ?thesis by blast
next
  case (Some a)
  then have "a = q" using assms by (simp add: required_paths_def find_append_cases)
  then have "stage3 seed np_seed cfg BASE_DIR w
               = (Some (FileNotFoundError (''Missing master file: '' @ q)), w)"
    using Some by (simp add: stage3_def try_step_def check_files_find Let_def)
  then show ?thesis by blast
qed

text \<open>
  With the five tables in place and both generators returning, the script ends without an
  exception and has written its two output files.
\<close>

lemma stage3_writes:
  assumes "files w (path_join (path_join BASE_DIR ''1_csv_files'') ''users.csv'')
             = Some (UsersCsv users_df)"
    and "files w (path_join (path_join BASE_DIR ''1_csv_files'') ''restaurants.csv'')
             = Some (RestaurantsCsv restaurants_df)"
    and "files w (path_join (path_join BASE_DIR ''1_csv_files'') ''menu.csv'')
             = Some (MenuCsv menu_df)"
    and "files w (path_join BASE_DIR ''orders.csv'') = Some (OrdersCsv orders_df)"
    and "files w (path_join BASE_DIR ''order_items.csv'') = Some (OrderItemsCsv order_items_df)"
    and "generate_user_sessions cfg users_df orders_df (seed 42) = Inr (sessions_df, g1)"
    and "generate_cart_items cfg users_df restaurants_df menu_df orders_df order_items_df
           g1 (np_seed 42) = Inr (cart_df, g2, n2)"
  shows "\<exists>w'. stage3 seed np_seed cfg BASE_DIR w = (None, w')
           \<and> files w' (path_join BASE_DIR ''cart_items.csv'') = Some (CartCsv cart_df)
           \<and> (path_join BASE_DIR ''user_sessions.csv'' \<noteq> path_join BASE_DIR ''cart_items.csv''
                \<longrightarrow> files w' (path_join BASE_DIR ''user_sessions.csv'')
                      = Some (SessionsCsv sessions_df))"
  using assms
  by (simp add: stage3_def try_step_def required_master_def required_txn_def path_exists_def
      print_def to_csv_def read_users_def read_restaurants_def read_menu_def read_orders_def
      read_order_items_def Let_def)

text \<open>
  Claim C8. If one of the five input files does not exist when the script starts, the run
  ends with \<open>FileNotFoundError\<close>, whose message is one of the two prefixes followed by the
  path of the first missing file in checking order, and the world is the one the script
  started in: no file has been written, no line printed (not even \<open>Loading data...\<close>), and
  neither generator has been seeded or drawn from.
\<close>

theorem stage3_missing_input_halts:
  assumes "p \<in> set (required_paths BASE_DIR)" and "files w p = None"
  shows "\<exists>q prefix. find (\<lambda>q. files w q = None) (required_paths BASE_DIR) = Some q
           \<and> q \<in> set (required_paths BASE_DIR) \<and> files w q = None
           \<and> (prefix = ''Missing master file: '' \<or> prefix = ''Missing transaction file: '')
           \<and> stage3 seed np_seed cfg BASE_DIR w = (Some (FileNotFoundError (prefix @ q)), w)"
proof -
  have "find (\<lambda>q. files w q = None) (required_paths BASE_DIR) \<noteq> None"
    using assms by (auto simp: find_None_set)
  then obtain q where q: "find (\<lambda>q. files w q = None) (required_paths BASE_DIR) = Some q"
    by blast
  then have "q \<in> set (required_paths BASE_DIR)" "files w q = None"
    by (auto simp: find_Some_iff)
  with q stage3_first_missing [OF q, of seed np_seed cfg] show ?thesis by blast
qed

theorem stage3_missing_input_halts_witness:
  "''/data/orders.csv'' \<in> set (required_paths ex_base)
   \<and> files ex_world ''/data/orders.csv'' = None
   \<and> stage3 (\<lambda>_ _. 0) (\<lambda>_ _. 0) CONFIG ex_base ex_world
       = (Some (FileNotFoundError ''Missing transaction file: /data/orders.csv''), ex_world)"
proof -
  have a: "''/data/orders.csv'' \<in> set (required_paths ex_base)"
    by (simp add: required_paths_def ex_base_def required_master_def required_txn_def
        path_join_def)
  have b: "files ex_world ''/data/orders.csv'' = None"
    by (simp add: ex_world_def)
  have f: "find (\<lambda>q. files ex_world q = None) (required_paths ex_base)
             = Some ''/data/orders.csv''"
    by (simp add: required_paths_def ex_base_def required_master_def required_txn_def
        path_join_def ex_world_def)
  from stage3_missing_input_halts [OF a b, of "\<lambda>_ _. 0" "\<lambda>_ _. 0" CONFIG] obtain q prefix where
    "find (\<lambda>q. files ex_world q = None) (required_paths ex_base) = Some q"
    "prefix = ''Missing master file: '' \<or> prefix = ''Missing transaction file: ''"
    "stage3 (\<lambda>_ _. 0) (\<lambda>_ _. 0) CONFIG ex_base ex_world
       = (Some (FileNotFoundError (prefix @ q)), ex_world)"
    by blast
  moreover have "stage3 (\<lambda>_ _. 0) (\<lambda>_ _. 0) CONFIG ex_base ex_world
       \<noteq> (Some (FileNotFoundError (''Missing master file: '' @ ''/data/orders.csv'')), ex_world)"
    by (simp add: stage3_def try_step_def required_master_def required_txn_def path_exists_def
        ex_base_def ex_world_def path_join_def Let_def)
  ultimately have "stage3 (\<lambda>_ _. 0) (\<lambda>_ _. 0) CONFIG ex_base ex_world
       = (Some (FileNotFoundError ''Missing transaction file: /data/orders.csv''), ex_world)"
    using f by auto
  with a b show ?thesis by blast
qed

section \<open>Stage 3: cart items\<close>

lemma ordered_row_each:
  "\<exists>s' rows. for_each items (ordered_row ord) s = Inr s' \<and> cart s' = cart s @ rows
      \<and> list_all c_IsOrdered rows
      \<and> map (\<lambda>c. (c_OrderID c, c_MenuID c, c_Quantity c)) rows
          = map (\<lambda>i. (Some (o_OrderID ord), oi_MenuID i, oi_Quantity i)) items"
proof (induction items arbitrary: s)
  case Nil
  then show ?case by simp
next
  case (Cons i items)
  obtain minutes g1 where m: "randint 1 10 (c_rnd s) = (minutes, g1)"
    by (cases "randint 1 10 (c_rnd s)")
  define row where "row = \<lparr>c_CartID = cart_id s, c_UserID = o_UserID ord,
                 c_RestaurantID = o_RestaurantID ord, c_MenuID = oi_MenuID i,
                 c_Quantity = oi_Quantity i, c_AddedAt = o_OrderTime ord - minutes,
                 c_IsOrdered = True, c_OrderID = Some (o_OrderID ord)\<rparr>"
  define s1 where "s1 = s\<lparr>cart := cart s @ [row], cart_id := cart_id s + 1, c_rnd := g1\<rparr>"
  have s1: "ordered_row ord i s = Inr s1" "cart s1 = cart s @ [row]"
    "c_IsOrdered row" "c_OrderID row = Some (o_OrderID ord)" "c_MenuID row = oi_MenuID i"
    "c_Quantity row = oi_Quantity i"
    by (simp_all add: ordered_row_def m s1_def row_def)
  from Cons.IH [of s1] obtain s' rows where
    r: "for_each items (ordered_row ord) s1 = Inr s'" "cart s' = cart s1 @ rows"
    "list_all c_IsOrdered rows"
    "map (\<lambda>c. (c_OrderID c, c_MenuID c, c_Quantity c)) rows
          = map (\<lambda>i. (Some (o_OrderID ord), oi_MenuID i, oi_Quantity i)) items"
    by blast
  have "for_each (i # items) (ordered_row ord) s = Inr s'" using s1(1) r(1) by simp
  moreover have "cart s' = cart s @ (row # rows)" using s1(2) r(2) by simp
  moreover have "list_all c_IsOrdered (row # rows)" using s1(3) r(3) by simp
  moreover have "map (\<lambda>c. (c_OrderID c, c_MenuID c, c_Quantity c)) (row # rows)
          = map (\<lambda>i. (Some (o_OrderID ord), oi_MenuID i, oi_Quantity i)) (i # items)"
    using s1(4,5,6) r(4) by simp
  ultimately show ?case by blast
qed

lemma ordered_rows_each:
  "\<exists>s' rows. for_each orders_df (ordered_rows order_items_df) s = Inr s'
      \<and> cart s' = cart s @ rows \<and> list_all c_IsOrdered rows
      \<and> map (\<lambda>c. (c_OrderID c, c_MenuID c, c_Quantity c)) rows
          = concat (map (\<lambda>ord. map (\<lambda>i. (Some (o_OrderID ord), oi_MenuID i, oi_Quantity i))
                                  (lines_of order_items_df ord)) orders_df)"
proof (induction orders_df arbitrary: s)
  case Nil
  then show ?case by simp
next
  case (Cons ord orders_df)
  from ordered_row_each [of "lines_of order_items_df ord" ord s] obtain s1 rows1 where
    a: "ordered_rows order_items_df ord s = Inr s1" "cart s1 = cart s @ rows1"
    "list_all c_IsOrdered rows1"
    "map (\<lambda>c. (c_OrderID c, c_MenuID c, c_Quantity c)) rows1
       = map (\<lambda>i. (Some (o_OrderID ord), oi_MenuID i, oi_Quantity i)) (lines_of order_items_df ord)"
    by (auto simp: ordered_rows_def lines_of_def)
  from Cons.IH [of s1] obtain s' rows where
    r: "for_each orders_df (ordered_rows order_items_df) s1 = Inr s'" "cart s' = cart s1 @ rows"
    "list_all c_IsOrdered rows"
    "map (\<lambda>c. (c_OrderID c, c_MenuID c, c_Quantity c)) rows
          = concat (map (\<lambda>ord. map (\<lambda>i. (Some (o_OrderID ord), oi_MenuID i, oi_Quantity i))
                                  (lines_of order_items_df ord)) orders_df)"
    by blast
  have "for_each (ord # orders_df) (ordered_rows order_items_df) s = Inr s'"
    using a(1) r(1) by simp
  moreover have "cart s' = cart s @ (rows1 @ rows)" using a(2) r(2) by simp
  moreover have "list_all c_IsOrdered (rows1 @ rows)" using a(3) r(3) by simp
  moreover have "map (\<lambda>c. (c_OrderID c, c_MenuID c, c_Quantity c)) (rows1 @ rows)
          = concat (map (\<lambda>ord. map (\<lambda>i. (Some (o_OrderID ord), oi_MenuID i, oi_Quantity i))
                                  (lines_of order_items_df ord)) (ord # orders_df))"
    using a(4) r(4) by simp
  ultimately show ?case by blast
qed

lemma filter_split_length:
  "(\<And>x. x \<in> set xs \<Longrightarrow> \<not> (P x \<and> Q x)) \<Longrightarrow>
   length (filter P xs) + length (filter Q xs) = length (filter (\<lambda>x. P x \<or> Q x) xs)"
  by (induction xs) auto

lemma lines_count:
  "distinct (map o_OrderID orders_df) \<Longrightarrow>
   length (concat (map (\<lambda>ord. map (f ord) (lines_of items ord)) orders_df))
     = length (filter (\<lambda>i. oi_OrderID i \<in> o_OrderID ` set orders_df) items)"
proof (induction orders_df)
  case Nil
  then show ?case by simp
next
  case (Cons ord orders_df)
  have d: "o_OrderID ord \<notin> o_OrderID ` set orders_df" "distinct (map o_OrderID orders_df)"
    using Cons.prems by simp_all
  have "length (filter (\<lambda>i. oi_OrderID i = o_OrderID ord) items)
          + length (filter (\<lambda>i. oi_OrderID i \<in> o_OrderID ` set orders_df) items)
        = length (filter (\<lambda>i. oi_OrderID i = o_OrderID ord
                             \<or> oi_OrderID i \<in> o_OrderID ` set orders_df) items)"
    by (rule filter_split_length) (use d(1) in auto)
  then show ?case using Cons.IH [OF d(2)] by (simp add: lines_of_def)
qed

lemma lines_count_all:
  assumes "distinct (map o_OrderID orders_df)"
    and "\<forall>i \<in> set items. oi_OrderID i \<in> o_OrderID ` set orders_df"
  shows "length (concat (map (\<lambda>ord. map (f ord) (lines_of items ord)) orders_df)) = length items"
proof -
  have "filter (\<lambda>i. oi_OrderID i \<in> o_OrderID ` set orders_df) items = items"
    using assms(2) by (simp add: filter_id_conv)
  then show ?thesis using lines_count [OF assms(1), of f items] by simp
qed

lemma abandoned_iteration_cases:
  assumes "abandoned_iteration users_df restaurants_df menu_df s = Inr s'"
  shows "(cart s' = cart s
            \<and> (\<exists>r \<in> set restaurants_df. r_IsActive r
                  \<and> filter (\<lambda>m. m_RestaurantID m = r_RestaurantID r \<and> m_IsAvailable m) menu_df
                     = []))
         \<or> (\<exists>row. cart s' = cart s @ [row] \<and> \<not> c_IsOrdered row)"
proof -
  from assms obtain user n1 restaurant n2 where
    u: "sample1 users_df (c_nprnd s) = Inr (user, n1)"
    and r: "sample1 (filter r_IsActive restaurants_df) n1 = Inr (restaurant, n2)"
    by (auto simp: abandoned_iteration_def and_then_eq_Inr)
  have rm: "restaurant \<in> set restaurants_df" "r_IsActive restaurant"
    using sample1_mem [OF r] by auto
  show ?thesis
  proof (cases "filter (\<lambda>m. m_RestaurantID m = r_RestaurantID restaurant \<and> m_IsAvailable m)
                  menu_df = []")
    case True
    then have "cart s' = cart s"
      using assms u r by (auto simp: abandoned_iteration_def and_then_Inr)
    then show ?thesis using rm True by blast
  next
    case False
    with assms u r have "\<exists>row. cart s' = cart s @ [row] \<and> \<not> c_IsOrdered row"
      by (auto simp: abandoned_iteration_def and_then_Inr and_then_eq_Inr Let_def
          case_prod_beta)
    then show ?thesis by blast
  qed
qed

lemma abandoned_loop:
  assumes "for_range k (abandoned_iteration users_df restaurants_df menu_df) s = Inr s'"
  shows "\<exists>rows. cart s' = cart s @ rows \<and> list_all (\<lambda>c. \<not> c_IsOrdered c) rows
           \<and> length rows \<le> k
           \<and> (length rows = k
               \<or> (\<exists>r \<in> set restaurants_df. r_IsActive r
                  \<and> filter (\<lambda>m. m_RestaurantID m = r_RestaurantID r \<and> m_IsAvailable m) menu_df
                     = []))"
  using assms
proof (induction k arbitrary: s)
  case 0
  then show ?case by simp
next
  case (Suc k)
  from Suc.prems obtain s1 where
    a: "abandoned_iteration users_df restaurants_df menu_df s = Inr s1"
    and b: "for_range k (abandoned_iteration users_df restaurants_df menu_df) s1 = Inr s'"
    by (auto split: sum.splits)
  from Suc.IH [OF b] obtain rows where
    r: "cart s' = cart s1 @ rows" "list_all (\<lambda>c. \<not> c_IsOrdered c) rows" "length rows \<le> k"
    "length rows = k
       \<or> (\<exists>r \<in> set restaurants_df. r_IsActive r
            \<and> filter (\<lambda>m. m_RestaurantID m = r_RestaurantID r \<and> m_IsAvailable m) menu_df = [])"
    by blast
  from abandoned_iteration_cases [OF a] show ?case
  proof
    assume c: "cart s1 = cart s
            \<and> (\<exists>r \<in> set restaurants_df. r_IsActive r
                  \<and> filter (\<lambda>m. m_RestaurantID m = r_RestaurantID r \<and> m_IsAvailable m) menu_df
                     = [])"
    then have "cart s' = cart s @ rows" using r(1) by simp
    moreover have "length rows \<le> Suc k" using r(3) by simp
    ultimately show ?thesis using r(2) c by blast
  next
    assume "\<exists>row. cart s1 = cart s @ [row] \<and> \<not> c_IsOrdered row"
    then obtain row where c: "cart s1 = cart s @ [row]" "\<not> c_IsOrdered row" by blast
    have "cart s' = cart s @ (row # rows)" using r(1) c(1) by simp
    moreover have "list_all (\<lambda>c. \<not> c_IsOrdered c) (row # rows)" using r(2) c(2) by simp
    moreover have "length (row # rows) \<le> Suc k" using r(3) by simp
    moreover have "length (row # rows) = Suc k
       \<or> (\<exists>r \<in> set restaurants_df. r_IsActive r
            \<and> filter (\<lambda>m. m_RestaurantID m = r_RestaurantID r \<and> m_IsAvailable m) menu_df = [])"
      using r(4) by auto
    ultimately show ?thesis by blast
  qed
qed

lemma target_abandoned_bounds:
  assumes "0 \<le> abandoned_cart_rate cfg" "abandoned_cart_rate cfg < 1"
  shows "\<exists>t. target_abandoned cfg n = Inr t \<and> 0 \<le> t
           \<and> of_int t * (1 - abandoned_cart_rate cfg) \<le> of_nat n * abandoned_cart_rate cfg
           \<and> of_nat n * abandoned_cart_rate cfg < (of_int t + 1) * (1 - abandoned_cart_rate cfg)"
proof -
  let ?r = "abandoned_cart_rate cfg"
  let ?x = "of_nat n * ?r / (1 - ?r)"
  have pos: "0 < 1 - ?r" using assms by simp
  have x0: "0 \<le> ?x" using assms pos by simp
  then have t: "target_abandoned cfg n = Inr \<lfloor>?x\<rfloor>"
    using pos by (simp add: target_abandoned_def py_int_def)
  have "0 \<le> \<lfloor>?x\<rfloor>" using x0 by simp
  moreover have xr: "?x * (1 - ?r) = of_nat n * ?r" using pos by simp
  have "of_int \<lfloor>?x\<rfloor> * (1 - ?r) \<le> ?x * (1 - ?r)"
    using pos by (intro mult_right_mono of_int_floor_le) simp
  then have "of_int \<lfloor>?x\<rfloor> * (1 - ?r) \<le> of_nat n * ?r"
    by (simp only: xr)
  moreover have "?x < of_int \<lfloor>?x\<rfloor> + 1" by linarith
  then have "?x * (1 - ?r) < (of_int \<lfloor>?x\<rfloor> + 1) * (1 - ?r)"
    using pos by (rule mult_strict_right_mono)
  then have "of_nat n * ?r < (of_int \<lfloor>?x\<rfloor> + 1) * (1 - ?r)"
    by (simp only: xr)
  ultimately show ?thesis using t by blast
qed

lemma generate_cart_items_shape:
  assumes "generate_cart_items cfg users_df restaurants_df menu_df orders_df order_items_df g n
             = Inr (cart_df, g', n')"
  shows "\<exists>ordered abandoned t. cart_df = ordered @ abandoned
           \<and> list_all c_IsOrdered ordered \<and> list_all (\<lambda>c. \<not> c_IsOrdered c) abandoned
           \<and> map (\<lambda>c. (c_OrderID c, c_MenuID c, c_Quantity c)) ordered
               = concat (map (\<lambda>ord. map (\<lambda>i. (Some (o_OrderID ord), oi_MenuID i, oi_Quantity i))
                                      (lines_of order_items_df ord)) orders_df)
           \<and> target_abandoned cfg (length ordered) = Inr t
           \<and> length abandoned \<le> nat t
           \<and> (length abandoned = nat t
               \<or> (\<exists>r \<in> set restaurants_df. r_IsActive r
                  \<and> filter (\<lambda>m. m_RestaurantID m = r_RestaurantID r \<and> m_IsAvailable m) menu_df
                     = []))"
proof -
  let ?s0 = "\<lparr>cart = [], cart_id = 1, c_rnd = g, c_nprnd = n\<rparr>"
  from ordered_rows_each [of orders_df order_items_df ?s0] obtain s1 ordered where
    a: "for_each orders_df (ordered_rows order_items_df) ?s0 = Inr s1" "cart s1 = ordered"
    "list_all c_IsOrdered ordered"
    "map (\<lambda>c. (c_OrderID c, c_MenuID c, c_Quantity c)) ordered
       = concat (map (\<lambda>ord. map (\<lambda>i. (Some (o_OrderID ord), oi_MenuID i, oi_Quantity i))
                                      (lines_of order_items_df ord)) orders_df)"
    by auto
  from assms a(1) obtain t s2 where
    t: "target_abandoned cfg (length (cart s1)) = Inr t"
    and l: "for_range (nat t) (abandoned_iteration users_df restaurants_df menu_df) s1 = Inr s2"
    and c: "cart_df = cart s2"
    by (auto simp: generate_cart_items_def and_then_eq_Inr)
  from abandoned_loop [OF l] obtain abandoned where
    b: "cart s2 = cart s1 @ abandoned" "list_all (\<lambda>c. \<not> c_IsOrdered c) abandoned"
    "length abandoned \<le> nat t"
    "length abandoned = nat t
       \<or> (\<exists>r \<in> set restaurants_df. r_IsActive r
            \<and> filter (\<lambda>m. m_RestaurantID m = r_RestaurantID r \<and> m_IsAvailable m) menu_df = [])"
    by blast
  have "cart_df = ordered @ abandoned" using c b(1) a(2) by simp
  moreover have "target_abandoned cfg (length ordered) = Inr t" using t a(2) by simp
  ultimately show ?thesis using a(3,4) b(2,3,4) by blast
qed

text \<open>The two tables Stage 2 writes are of the kind the cart reconstruction counts right.\<close>

lemma generate_orders_tables:
  assumes "generate_orders users_df restaurants_df menu_df cfg g n = Inr s"
  shows "distinct (map o_OrderID (orders_data s))
         \<and> (\<forall>i \<in> set (order_items_data s). oi_OrderID i \<in> o_OrderID ` set (orders_data s))"
proof -
  have inv: "orders_inv (generated_order users_df restaurants_df menu_df) s"
    by (rule generate_orders_inv [OF assms])
  then have "map o_OrderID (orders_data s) = map int [1 ..< Suc (length (orders_data s))]"
    by (simp only: orders_inv_def)
  moreover have "distinct (map int [1 ..< Suc (length (orders_data s))])"
    by (simp add: distinct_map)
  ultimately have "distinct (map o_OrderID (orders_data s))" by simp
  then show ?thesis using inv by (simp add: orders_inv_def)
qed

lemma ex_target: "target_abandoned CONFIG 3 = Inr 1"
proof -
  have "\<lfloor>9 / 7 :: rat\<rfloor> = 1" by (rule floor_unique) simp_all
  then show ?thesis by (simp add: target_abandoned_def CONFIG_def py_int_def)
qed

lemma ex_target_Suc: "target_abandoned CONFIG (Suc (Suc (Suc 0))) = Inr 1"
  using ex_target by (simp only: numeral_3_eq_3)

lemma ex_ordered_rows:
  "for_each [ex_order_1] (ordered_rows ex_three_lines)
     \<lparr>cart = [], cart_id = 1, c_rnd = (\<lambda>_. 0), c_nprnd = (\<lambda>_. 0)\<rparr>
   = Inr \<lparr>cart = [ex_cart_row 1, ex_cart_row 2, ex_cart_row 3], cart_id = 4,
          c_rnd = (\<lambda>_. 0), c_nprnd = (\<lambda>_. 0)\<rparr>"
  by (simp add: ordered_rows_def ordered_row_def ex_three_lines_def ex_order_1_def ex_line_1_def
      ex_cart_row_def randint_def draw_def)

lemma ex_cart_run:
  "generate_cart_items CONFIG ex_users ex_open_restaurants ex_menu [ex_order_1] ex_three_lines
     (\<lambda>_. 0) (\<lambda>_. 0)
   = Inr ([ex_cart_row 1, ex_cart_row 2, ex_cart_row 3, ex_abandoned_row], \<lambda>_. 0, \<lambda>_. 0)"
  by (simp only: generate_cart_items_def ex_ordered_rows)
     (simp add: ex_target_Suc abandoned_iteration_def
      ex_users_def ex_user_def ex_open_restaurants_def ex_restaurant_def ex_menu_def
      ex_menu_item_def ex_abandoned_row_def sample1_def choice_def randint_def draw_def
      Let_def)

text \<open>
  The target can be missed: here the only active restaurant has no available item, so the
  one abandoned row that was aimed for is skipped.
\<close>

lemma ex_cart_undershoot:
  "generate_cart_items CONFIG ex_users ex_closed_kitchen ex_menu [ex_order_1] ex_three_lines
     (\<lambda>_. 0) (\<lambda>_. 0)
   = Inr ([ex_cart_row 1, ex_cart_row 2, ex_cart_row 3], \<lambda>_. 0, \<lambda>_. 0)"
  by (simp only: generate_cart_items_def ex_ordered_rows)
     (simp add: ex_target_Suc abandoned_iteration_def
      ex_users_def ex_user_def ex_closed_kitchen_def ex_restaurant_def ex_menu_def
      ex_menu_item_def sample1_def draw_def Let_def)

text \<open>
  Claim C5. For order tables with unique order ids in which every line belongs to an order
  (Stage 2 writes such tables), and a rate in \<open>[0, 1)\<close>: the cart rows with \<open>IsOrdered\<close> are,
  in order, one per order line, carrying the order's id and the line's menu id and
  quantity, so there are as many as order lines. The abandoned rows number at most
  \<open>int(ordered * rate / (1 - rate))\<close>, hence at most \<open>rate\<close> times all cart rows; when every
  active restaurant has an available menu item the target is met exactly, and the
  abandoned count is then less than \<open>1 - rate\<close> below \<open>rate\<close> times all cart rows.
\<close>

theorem cart_items_ordered_and_abandoned:
  assumes run: "generate_cart_items cfg users_df restaurants_df menu_df orders_df order_items_df
                  g n = Inr (cart_df, g', n')"
    and ids: "distinct (map o_OrderID orders_df)"
    and cov: "\<forall>i \<in> set order_items_df. oi_OrderID i \<in> o_OrderID ` set orders_df"
    and rate: "0 \<le> abandoned_cart_rate cfg" "abandoned_cart_rate cfg < 1"
  shows "length (filter c_IsOrdered cart_df) = length order_items_df
     \<and> map (\<lambda>c. (c_OrderID c, c_MenuID c, c_Quantity c)) (filter c_IsOrdered cart_df)
         = concat (map (\<lambda>ord. map (\<lambda>i. (Some (o_OrderID ord), oi_MenuID i, oi_Quantity i))
                                (lines_of order_items_df ord)) orders_df)
     \<and> (\<exists>t. target_abandoned cfg (length order_items_df) = Inr t
           \<and> int (length (filter (\<lambda>c. \<not> c_IsOrdered c) cart_df)) \<le> t
           \<and> ((\<forall>r \<in> set restaurants_df. r_IsActive r \<longrightarrow>
                  (\<exists>m \<in> set menu_df. m_RestaurantID m = r_RestaurantID r \<and> m_IsAvailable m))
                \<longrightarrow> int (length (filter (\<lambda>c. \<not> c_IsOrdered c) cart_df)) = t
                    \<and> abandoned_cart_rate cfg * of_nat (length cart_df)
                         - of_nat (length (filter (\<lambda>c. \<not> c_IsOrdered c) cart_df))
                       < 1 - abandoned_cart_rate cfg))
     \<and> of_nat (length (filter (\<lambda>c. \<not> c_IsOrdered c) cart_df))
         \<le> abandoned_cart_rate cfg * of_nat (length cart_df)"
proof -
  let ?r = "abandoned_cart_rate cfg"
  from generate_cart_items_shape [OF run] obtain ordered abandoned t where
    c: "cart_df = ordered @ abandoned"
    and o: "list_all c_IsOrdered ordered"
    and a: "list_all (\<lambda>c. \<not> c_IsOrdered c) abandoned"
    and k: "map (\<lambda>c. (c_OrderID c, c_MenuID c, c_Quantity c)) ordered
               = concat (map (\<lambda>ord. map (\<lambda>i. (Some (o_OrderID ord), oi_MenuID i, oi_Quantity i))
                                      (lines_of order_items_df ord)) orders_df)"
    and t: "target_abandoned cfg (length ordered) = Inr t"
    and le: "length abandoned \<le> nat t"
    and eq: "length abandoned = nat t
               \<or> (\<exists>r \<in> set restaurants_df. r_IsActive r
                  \<and> filter (\<lambda>m. m_RestaurantID m = r_RestaurantID r \<and> m_IsAvailable m) menu_df
                     = [])"
    by blast
  have fo: "filter c_IsOrdered cart_df = ordered"
    using c o a by (simp add: list_all_iff filter_id_conv filter_empty_conv)
  have fa: "filter (\<lambda>c. \<not> c_IsOrdered c) cart_df = abandoned"
    using c o a by (simp add: list_all_iff filter_id_conv filter_empty_conv)
  have "length (map (\<lambda>c. (c_OrderID c, c_MenuID c, c_Quantity c)) ordered)
          = length order_items_df"
    unfolding k
    by (rule lines_count_all [OF ids cov,
          of "\<lambda>ord i. (Some (o_OrderID ord), oi_MenuID i, oi_Quantity i)"])
  then have n: "length ordered = length order_items_df" by simp
  from target_abandoned_bounds [OF rate, of "length ordered"] t have
    t0: "0 \<le> t"
    and lo: "of_int t * (1 - ?r) \<le> of_nat (length ordered) * ?r"
    and hi: "of_nat (length ordered) * ?r < (of_int t + 1) * (1 - ?r)"
    by auto
  have len: "length cart_df = length ordered + length abandoned" using c by simp
  have at: "int (length abandoned) \<le> t" using le t0 by simp
  have pos: "0 \<le> 1 - ?r" using rate by simp
  have "of_nat (length abandoned) * (1 - ?r) \<le> of_int t * (1 - ?r)"
  proof (rule mult_right_mono [OF _ pos])
    have "(of_int (int (length abandoned)) :: rat) \<le> of_int t" using at by (simp only: of_int_le_iff)
    then show "(of_nat (length abandoned) :: rat) \<le> of_int t" by simp
  qed
  then have "of_nat (length abandoned) * (1 - ?r) \<le> of_nat (length ordered) * ?r"
    using lo by simp
  then have share: "of_nat (length abandoned) \<le> ?r * of_nat (length cart_df)"
    by (simp add: len algebra_simps)
  have full: "int (length abandoned) = t
                \<and> ?r * of_nat (length cart_df) - of_nat (length abandoned) < 1 - ?r"
    if all: "\<forall>r \<in> set restaurants_df. r_IsActive r \<longrightarrow>
               (\<exists>m \<in> set menu_df. m_RestaurantID m = r_RestaurantID r \<and> m_IsAvailable m)"
  proof -
    have "\<not> (\<exists>r \<in> set restaurants_df. r_IsActive r
                  \<and> filter (\<lambda>m. m_RestaurantID m = r_RestaurantID r \<and> m_IsAvailable m) menu_df
                     = [])"
      using all by (auto simp: filter_empty_conv)
    then have "length abandoned = nat t" using eq by blast
    then have e: "int (length abandoned) = t" using t0 by simp
    then have "(of_int t :: rat) = of_nat (length abandoned)" by auto
    then have "of_nat (length ordered) * ?r < (of_nat (length abandoned) + 1) * (1 - ?r)"
      using hi by simp
    then have "?r * of_nat (length cart_df) - of_nat (length abandoned) < 1 - ?r"
      by (simp add: len algebra_simps)
    with e show ?thesis by simp
  qed
  show ?thesis
    unfolding fo fa using n k t at share full by auto
qed

theorem cart_items_ordered_and_abandoned_witness:
  "generate_cart_items CONFIG ex_users ex_open_restaurants ex_menu [ex_order_1] ex_three_lines
     (\<lambda>_. 0) (\<lambda>_. 0)
     = Inr ([ex_cart_row 1, ex_cart_row 2, ex_cart_row 3, ex_abandoned_row], \<lambda>_. 0, \<lambda>_. 0)
   \<and> distinct (map o_OrderID [ex_order_1])
   \<and> list_all (\<lambda>i. oi_OrderID i \<in> o_OrderID ` set [ex_order_1]) ex_three_lines
   \<and> length (filter c_IsOrdered [ex_cart_row 1, ex_cart_row 2, ex_cart_row 3, ex_abandoned_row])
       = length ex_three_lines
   \<and> target_abandoned CONFIG (length ex_three_lines) = Inr 1
   \<and> length (filter (\<lambda>c. \<not> c_IsOrdered c)
               [ex_cart_row 1, ex_cart_row 2, ex_cart_row 3, ex_abandoned_row]) = 1"
proof -
  have ids: "distinct (map o_OrderID [ex_order_1])" by simp
  have cov: "\<forall>i \<in> set ex_three_lines. oi_OrderID i \<in> o_OrderID ` set [ex_order_1]"
    by (simp add: ex_three_lines_def ex_line_1_def ex_order_1_def)
  have rate: "0 \<le> abandoned_cart_rate CONFIG" "abandoned_cart_rate CONFIG < 1"
    by (simp_all add: CONFIG_def)
  have l: "length ex_three_lines = 3" by (simp add: ex_three_lines_def)
  note h = cart_items_ordered_and_abandoned [OF ex_cart_run ids cov rate]
  have "length (filter c_IsOrdered [ex_cart_row 1, ex_cart_row 2, ex_cart_row 3, ex_abandoned_row])
       = length ex_three_lines"
    using h by blast
  moreover have "length (filter (\<lambda>c. \<not> c_IsOrdered c)
               [ex_cart_row 1, ex_cart_row 2, ex_cart_row 3, ex_abandoned_row]) = 1"
    by (simp add: ex_cart_row_def ex_abandoned_row_def)
  ultimately show ?thesis
    using ex_cart_run ids cov ex_target l by (simp add: list_all_iff)
qed

section \<open>Stage 1: restaurant ratings\<close>

lemma round_half_even_bounds: "\<lfloor>y\<rfloor> \<le> round_half_even y \<and> round_half_even y \<le> \<lceil>y\<rceil>"
proof -
  have "round_half_even y = \<lfloor>y\<rfloor> \<or> (round_half_even y = \<lfloor>y\<rfloor> + 1 \<and> 1 / 2 \<le> y - of_int \<lfloor>y\<rfloor>)"
    by (auto simp: round_half_even_def Let_def)
  moreover have "\<lfloor>y\<rfloor> \<le> \<lceil>y\<rceil>" by (rule floor_le_ceiling)
  moreover have "\<lfloor>y\<rfloor> + 1 \<le> \<lceil>y\<rceil>" if "1 / 2 \<le> y - of_int \<lfloor>y\<rfloor>"
  proof -
    have "of_int \<lfloor>y\<rfloor> < y" using that by simp
    then show ?thesis by linarith
  qed
  ultimately show ?thesis by auto
qed

lemma round2_lower:
  assumes "of_int k / 100 \<le> x"
  shows "of_int k / 100 \<le> round2 x"
proof -
  have "of_int k \<le> x * 100" using assms by simp
  then have "k \<le> \<lfloor>x * 100\<rfloor>" by (simp add: le_floor_iff)
  then have "k \<le> round_half_even (x * 100)"
    using round_half_even_bounds [of "x * 100"] by linarith
  then have "(of_int k :: rat) \<le> of_int (round_half_even (x * 100))" by (simp only: of_int_le_iff)
  then show ?thesis by (simp add: round2_def divide_right_mono)
qed

lemma round2_upper:
  assumes "x \<le> of_int k / 100"
  shows "round2 x \<le> of_int k / 100"
proof -
  have "x * 100 \<le> of_int k" using assms by simp
  then have "\<lceil>x * 100\<rceil> \<le> k" by (simp add: ceiling_le_iff)
  then have "round_half_even (x * 100) \<le> k"
    using round_half_even_bounds [of "x * 100"] by linarith
  then have "(of_int (round_half_even (x * 100)) :: rat) \<le> of_int k" by (simp only: of_int_le_iff)
  then show ?thesis by (simp add: round2_def divide_right_mono)
qed

lemma uniform_3_5_range:
  assumes "uniform 3 5 g = (x, g')"
  shows "3 \<le> x \<and> x < 5"
proof -
  obtain d g1 where d: "draw g = (d, g1)" by (cases "draw g")
  define u where "u = (of_nat (d mod 9007199254740992) :: rat) / 9007199254740992"
  have x: "x = 3 + 2 * u" using assms d by (simp add: uniform_def random_def u_def)
  have "d mod 9007199254740992 < 9007199254740992" by simp
  then have "(of_nat (d mod 9007199254740992) :: rat) < of_nat 9007199254740992"
    by (simp only: of_nat_less_iff)
  then have "u < 1" by (simp add: u_def)
  moreover have "0 \<le> u" by (simp add: u_def)
  ultimately show ?thesis unfolding x by simp
qed

lemma rating_range:
  assumes "uniform 3 5 g = (x, g')"
  shows "3 \<le> round2 (x + (if metro then 3 / 10 else 0))
         \<and> round2 (x + (if metro then 3 / 10 else 0)) \<le> 53 / 10
         \<and> (5 < round2 (x + (if metro then 3 / 10 else 0)) \<longrightarrow> metro)"
proof -
  let ?y = "x + (if metro then 3 / 10 else 0)"
  have r: "3 \<le> x" "x < 5" using uniform_3_5_range [OF assms] by simp_all
  have "of_int 300 / 100 \<le> ?y" using r by simp
  then have "of_int 300 / 100 \<le> round2 ?y" by (rule round2_lower)
  then have lo: "3 \<le> round2 ?y" by simp
  have "?y \<le> of_int 530 / 100" using r by simp
  then have "round2 ?y \<le> of_int 530 / 100" by (rule round2_upper)
  then have hi: "round2 ?y \<le> 53 / 10" by simp
  have "round2 ?y \<le> 5" if "\<not> metro"
  proof -
    have "?y \<le> of_int 500 / 100" using r that by simp
    then have "round2 ?y \<le> of_int 500 / 100" by (rule round2_upper)
    then show ?thesis by simp
  qed
  then have "5 < round2 ?y \<longrightarrow> metro" by (cases metro) auto
  with lo hi show ?thesis by blast
qed

lemma restaurant_iteration_row:
  assumes "restaurant_iteration cities_df i s = Inr s'"
  shows "\<exists>r. restaurants_data s' = restaurants_data s @ [r] \<and> rating_ok cities_df r
           \<and> r_Address r = replace_newlines (rs_fake s 0)"
proof -
  from assms obtain city n1 cuisine g1 name g2 where
    c: "sample1 cities_df (rs_nprnd s) = Inr (city, n1)"
    and "choice cuisines (rs_rnd s) = Inr (cuisine, g1)"
    and "choice restaurant_names g1 = Inr (name, g2)"
    by (auto simp: restaurant_iteration_def and_then_eq_Inr)
  obtain x g3 where u: "uniform 3 5 g2 = (x, g3)" by (cases "uniform 3 5 g2")
  have city: "city \<in> set cities_df" using sample1_mem [OF c] .
  from assms c \<open>choice cuisines (rs_rnd s) = Inr (cuisine, g1)\<close>
    \<open>choice restaurant_names g1 = Inr (name, g2)\<close> u
  obtain r where r: "restaurants_data s' = restaurants_data s @ [r]"
    "r_CityID r = ct_CityID city"
    "r_Rating r = round2 (x + (if ct_CityName city \<in> set metro_cities then 3 / 10 else 0))"
    "r_Address r = replace_newlines (rs_fake s 0)"
    by (auto simp: restaurant_iteration_def and_then_eq_Inr Let_def fake_value_def
        case_prod_beta)
  have "3 \<le> r_Rating r \<and> r_Rating r \<le> 53 / 10
          \<and> (5 < r_Rating r \<longrightarrow> ct_CityName city \<in> set metro_cities)"
    unfolding r(3) by (rule rating_range [OF u])
  then have "rating_ok cities_df r"
    unfolding rating_ok_def using city u r(2,3) by blast
  with r(1,4) show ?thesis by blast
qed

lemma restaurants_loop:
  assumes "for_each is (restaurant_iteration cities_df) s = Inr s'"
  shows "\<exists>rows. restaurants_data s' = restaurants_data s @ rows
           \<and> (\<forall>r \<in> set rows. rating_ok cities_df r) \<and> length rows = length is
           \<and> (is \<noteq> [] \<longrightarrow> r_Address (hd rows) = replace_newlines (rs_fake s 0))"
  using assms
proof (induction "is" arbitrary: s)
  case Nil
  then show ?case by simp
next
  case (Cons i "is")
  from Cons.prems obtain s1 where
    a: "restaurant_iteration cities_df i s = Inr s1"
    and b: "for_each is (restaurant_iteration cities_df) s1 = Inr s'"
    by (auto split: sum.splits)
  from restaurant_iteration_row [OF a] obtain r where
    r: "restaurants_data s1 = restaurants_data s @ [r]" "rating_ok cities_df r"
    "r_Address r = replace_newlines (rs_fake s 0)"
    by blast
  from Cons.IH [OF b] obtain rows where
    rows: "restaurants_data s' = restaurants_data s1 @ rows"
    "\<forall>r \<in> set rows. rating_ok cities_df r" "length rows = length is"
    by blast
  have "restaurants_data s' = restaurants_data s @ (r # rows)" using r(1) rows(1) by simp
  moreover have "\<forall>r \<in> set (r # rows). rating_ok cities_df r" using r(2) rows(2) by simp
  moreover have "length (r # rows) = length (i # is)" using rows(3) by simp
  moreover have "r_Address (hd (r # rows)) = replace_newlines (rs_fake s 0)" using r(3) by simp
  ultimately show ?case by blast
qed

lemma generate_restaurants_rows:
  assumes "generate_restaurants num_restaurants cities_df g n f = Inr (rs, g', n', f')"
  shows "(\<forall>r \<in> set rs. rating_ok cities_df r) \<and> length rs = num_restaurants
         \<and> (0 < num_restaurants \<longrightarrow> r_Address (hd rs) = replace_newlines (f 0))"
proof -
  let ?s0 = "\<lparr>restaurants_data = [], rs_rnd = g, rs_nprnd = n, rs_fake = f\<rparr>"
  from assms obtain s where
    l: "for_each [1 ..< Suc num_restaurants] (restaurant_iteration cities_df) ?s0 = Inr s"
    and rs: "rs = restaurants_data s"
    by (auto simp: generate_restaurants_def and_then_eq_Inr)
  from restaurants_loop [OF l] obtain rows where
    "restaurants_data s = rows" "\<forall>r \<in> set rows. rating_ok cities_df r"
    "length rows = length [1 ..< Suc num_restaurants]"
    "[1 ..< Suc num_restaurants] \<noteq> [] \<longrightarrow> r_Address (hd rows) = replace_newlines (f 0)"
    by auto
  then show ?thesis using rs by auto
qed

lemma ex_top_rating: "round2 (119345390125318139 / 22517998136852480) = 53 / 10"
  by code_simp

lemma str_nat_1: "str_nat (Suc 0) = ''1''"
  by code_simp

lemma ex_restaurant_run:
  "generate_restaurants 1 (generate_cities 5) ex_rating_tape (\<lambda>_. 0) (ex_faker a)
     = Inr ([ex_metro_restaurant (replace_newlines a)], \<lambda>_. 0, \<lambda>_. 0, \<lambda>_. ''x'')"
proof -
  have c: "sample1 (generate_cities 5) (\<lambda>_. 0)
             = Inr (\<lparr>ct_CityID = 1, ct_CityName = ''Mumbai'', ct_State = ''Maharashtra''\<rparr>, \<lambda>_. 0)"
    by (simp add: sample1_def generate_cities_def indian_cities_def draw_def enumerate_eq_zip)
  have u: "uniform 3 5 (\<lambda>i. ex_rating_tape (Suc (Suc i)))
             = (3 + (5 - 3) * (9007199254740991 / 9007199254740992), \<lambda>_. 0)"
    by (simp add: uniform_def random_def draw_def ex_rating_tape_def)
  have n: "choice cuisines ex_rating_tape = Inr (''North Indian'', \<lambda>i. ex_rating_tape (Suc i))"
    by (simp add: choice_def cuisines_def draw_def ex_rating_tape_def)
  have m: "choice restaurant_names (\<lambda>i. ex_rating_tape (Suc i))
             = Inr (''The Great Kabab Factory'', \<lambda>i. ex_rating_tape (Suc (Suc i)))"
    by (simp add: choice_def restaurant_names_def draw_def ex_rating_tape_def)
  have b: "choice (replicate 95 True @ replicate 5 False) (\<lambda>_. 0) = Inr (True, \<lambda>_. 0)"
    by (simp add: choice_def draw_def nth_append)
  have f: "(\<lambda>i. ex_faker a (Suc i)) = (\<lambda>_. ''x'')"
    by (simp add: ex_faker_def)
  have "restaurant_iteration (generate_cities 5) (Suc 0)
          \<lparr>restaurants_data = [], rs_rnd = ex_rating_tape, rs_nprnd = (\<lambda>_. 0),
           rs_fake = ex_faker a\<rparr>
        = Inr \<lparr>restaurants_data = [ex_metro_restaurant (replace_newlines a)],
               rs_rnd = (\<lambda>_. 0), rs_nprnd = (\<lambda>_. 0), rs_fake = (\<lambda>_. ''x'')\<rparr>"
    unfolding restaurant_iteration_def
    by (simp add: c n m u b f ex_top_rating fake_value_def metro_cities_def str_nat_1
        ex_metro_restaurant_def ex_faker_def)
  then show ?thesis by (simp add: generate_restaurants_def)
qed

text \<open>
  Claim C7. Every row of \<open>generate_restaurants\<close> has the id of a city of the table and the
  rating \<open>round(uniform(3.0, 5.0) + bonus, 2)\<close>, where the bonus is 0.3 if that city's name is
  one of the five metros and 0 otherwise. The rating lies between 3.0 and 5.3, and a rating
  above 5.0 occurs only for a metro city. Nothing clamps it: the run in the witness gives
  a restaurant in Mumbai the rating 5.3.
\<close>

theorem restaurant_rating_range:
  assumes "generate_restaurants num_restaurants cities_df g n f = Inr (rs, g', n', f')"
  shows "\<forall>r \<in> set rs. \<exists>city \<in> set cities_df. \<exists>x g0 g1.
           uniform 3 5 g0 = (x, g1) \<and> r_CityID r = ct_CityID city
           \<and> r_Rating r = round2 (x + (if ct_CityName city \<in> set metro_cities then 3 / 10 else 0))
           \<and> 3 \<le> r_Rating r \<and> r_Rating r \<le> 53 / 10
           \<and> (5 < r_Rating r \<longrightarrow> ct_CityName city \<in> set metro_cities)"
proof
  fix r assume "r \<in> set rs"
  then have "rating_ok cities_df r" using generate_restaurants_rows [OF assms] by blast
  then show "\<exists>city \<in> set cities_df. \<exists>x g0 g1.
           uniform 3 5 g0 = (x, g1) \<and> r_CityID r = ct_CityID city
           \<and> r_Rating r = round2 (x + (if ct_CityName city \<in> set metro_cities then 3 / 10 else 0))
           \<and> 3 \<le> r_Rating r \<and> r_Rating r \<le> 53 / 10
           \<and> (5 < r_Rating r \<longrightarrow> ct_CityName city \<in> set metro_cities)"
    unfolding rating_ok_def .
qed

theorem restaurant_rating_range_witness:
  "generate_restaurants 1 (generate_cities 5) ex_rating_tape (\<lambda>_. 0) (ex_faker ''MG Road'')
     = Inr ([ex_metro_restaurant (replace_newlines ''MG Road'')], \<lambda>_. 0, \<lambda>_. 0, \<lambda>_. ''x'')
   \<and> r_Rating (ex_metro_restaurant (replace_newlines ''MG Road'')) = 53 / 10
   \<and> (\<exists>city \<in> set (generate_cities 5).
         r_CityID (ex_metro_restaurant (replace_newlines ''MG Road'')) = ct_CityID city
         \<and> ct_CityName city \<in> set metro_cities)"
proof -
  let ?r = "ex_metro_restaurant (replace_newlines ''MG Road'')"
  note h = restaurant_rating_range [OF ex_restaurant_run [of "''MG Road''"]]
  have v: "r_Rating ?r = 53 / 10" by (simp add: ex_metro_restaurant_def)
  then have "5 < r_Rating ?r" by simp
  moreover have "?r \<in> set [?r]" by simp
  ultimately have "\<exists>city \<in> set (generate_cities 5).
         r_CityID ?r = ct_CityID city \<and> ct_CityName city \<in> set metro_cities"
    using h by blast
  with v ex_restaurant_run [of "''MG Road''"] show ?thesis by blast
qed

section \<open>Stage 1: what the seeds do not fix\<close>

lemma restaurant_iteration_seeded:
  assumes "restaurant_iteration cities_df i s = Inr s'"
    and "rs_rnd t = rs_rnd s" "rs_nprnd t = rs_nprnd s"
    and "map seeded_columns (restaurants_data t) = map seeded_columns (restaurants_data s)"
  shows "\<exists>t'. restaurant_iteration cities_df i t = Inr t'
           \<and> rs_rnd t' = rs_rnd s' \<and> rs_nprnd t' = rs_nprnd s'
           \<and> map seeded_columns (restaurants_data t') = map seeded_columns (restaurants_data s')"
proof -
  from assms(1) obtain city n1 cuisine g1 name g2 where
    c: "sample1 cities_df (rs_nprnd s) = Inr (city, n1)"
    "choice cuisines (rs_rnd s) = Inr (cuisine, g1)"
    "choice restaurant_names g1 = Inr (name, g2)"
    by (auto simp: restaurant_iteration_def and_then_eq_Inr)
  obtain x g3 where u: "uniform 3 5 g2 = (x, g3)" by (cases "uniform 3 5 g2")
  from assms(1) c u obtain active g4 where
    b: "choice (replicate 95 True @ replicate 5 False) g3 = Inr (active, g4)"
    by (auto simp: restaurant_iteration_def and_then_eq_Inr fake_value_def)
  define row where "row = (\<lambda>a p d.
     \<lparr>r_RestaurantID = int i,
      r_Name = name @ '' - '' @ ct_CityName city @ '' '' @ str_nat i,
      r_Address = replace_newlines a, r_CityID = ct_CityID city, r_Cuisine = cuisine,
      r_Rating = round2 (x + (if ct_CityName city \<in> set metro_cities then 3 / 10 else 0)),
      r_OperatingHours = ''10:00 AM - 11:00 PM'', r_ContactNumber = p,
      r_IsActive = active, r_OpeningDate = d\<rparr>)"
  have step: "restaurant_iteration cities_df i w
                = Inr (w\<lparr>restaurants_data := restaurants_data w @
                         [row (rs_fake w 0) (rs_fake w (Suc 0)) (rs_fake w (Suc (Suc 0)))],
                       rs_rnd := g4, rs_nprnd := n1, rs_fake := (\<lambda>k. rs_fake w (Suc (Suc (Suc k))))\<rparr>)"
    if "rs_rnd w = rs_rnd s" "rs_nprnd w = rs_nprnd s" for w
    using that c u b
    by (simp add: restaurant_iteration_def fake_value_def row_def Let_def)
  have s': "s' = s\<lparr>restaurants_data := restaurants_data s @
                         [row (rs_fake s 0) (rs_fake s (Suc 0)) (rs_fake s (Suc (Suc 0)))],
                       rs_rnd := g4, rs_nprnd := n1, rs_fake := (\<lambda>k. rs_fake s (Suc (Suc (Suc k))))\<rparr>"
    using assms(1) step [of s] by simp
  have "seeded_columns (row a p d) = seeded_columns (row a' p' d')" for a p d a' p' d'
    by (simp add: seeded_columns_def row_def)
  then show ?thesis
    using step [OF assms(2,3)] assms(4) unfolding s' by simp
qed

lemma restaurants_loop_seeded:
  assumes "for_each is (restaurant_iteration cities_df) s = Inr s'"
    and "rs_rnd t = rs_rnd s" "rs_nprnd t = rs_nprnd s"
    and "map seeded_columns (restaurants_data t) = map seeded_columns (restaurants_data s)"
  shows "\<exists>t'. for_each is (restaurant_iteration cities_df) t = Inr t'
           \<and> rs_rnd t' = rs_rnd s' \<and> rs_nprnd t' = rs_nprnd s'
           \<and> map seeded_columns (restaurants_data t') = map seeded_columns (restaurants_data s')"
  using assms
proof (induction "is" arbitrary: s t)
  case Nil
  then show ?case by simp
next
  case (Cons i "is")
  from Cons.prems(1) obtain s1 where
    a: "restaurant_iteration cities_df i s = Inr s1"
    and b: "for_each is (restaurant_iteration cities_df) s1 = Inr s'"
    by (auto split: sum.splits)
  from restaurant_iteration_seeded [OF a Cons.prems(2,3,4)] obtain t1 where
    t1: "restaurant_iteration cities_df i t = Inr t1" "rs_rnd t1 = rs_rnd s1"
    "rs_nprnd t1 = rs_nprnd s1"
    "map seeded_columns (restaurants_data t1) = map seeded_columns (restaurants_data s1)"
    by blast
  from Cons.IH [OF b t1(2,3,4)] obtain t' where
    "for_each is (restaurant_iteration cities_df) t1 = Inr t'" "rs_rnd t' = rs_rnd s'"
    "rs_nprnd t' = rs_nprnd s'"
    "map seeded_columns (restaurants_data t') = map seeded_columns (restaurants_data s')"
    by blast
  then show ?case using t1(1) by simp
qed

text \<open>
  Claim C1. The seeds do not determine the output of Stage 1. Take a run of
  \<open>generate_restaurants\<close> and a second one with the same cities table and the same
  \<open>random\<close> and numpy streams, in which Faker hands out another first address. The second
  run returns too, leaves both seeded generators in the same state and agrees with the
  first on every column that does not come from Faker, but its table is a different one.
\<close>

theorem restaurants_not_reproducible:
  assumes "generate_restaurants num_restaurants cities_df g n fa = Inr (rs1, g1, n1, fa')"
    and "0 < num_restaurants"
    and "replace_newlines (fb 0) \<noteq> replace_newlines (fa 0)"
  shows "\<exists>rs2 fb'. generate_restaurants num_restaurants cities_df g n fb = Inr (rs2, g1, n1, fb')
           \<and> map seeded_columns rs2 = map seeded_columns rs1 \<and> rs2 \<noteq> rs1"
proof -
  let ?s0 = "\<lparr>restaurants_data = [], rs_rnd = g, rs_nprnd = n, rs_fake = fa\<rparr>"
  let ?t0 = "\<lparr>restaurants_data = [], rs_rnd = g, rs_nprnd = n, rs_fake = fb\<rparr>"
  from assms(1) obtain s where
    l: "for_each [1 ..< Suc num_restaurants] (restaurant_iteration cities_df) ?s0 = Inr s"
    and s: "rs1 = restaurants_data s" "g1 = rs_rnd s" "n1 = rs_nprnd s"
    by (auto simp: generate_restaurants_def and_then_eq_Inr)
  from restaurants_loop_seeded [OF l, of ?t0] obtain t where
    t: "for_each [1 ..< Suc num_restaurants] (restaurant_iteration cities_df) ?t0 = Inr t"
    "rs_rnd t = rs_rnd s" "rs_nprnd t = rs_nprnd s"
    "map seeded_columns (restaurants_data t) = map seeded_columns (restaurants_data s)"
    by auto
  have run2: "generate_restaurants num_restaurants cities_df g n fb
                = Inr (restaurants_data t, g1, n1, rs_fake t)"
    using t(1,2,3) s(2,3) by (simp add: generate_restaurants_def)
  have "r_Address (hd rs1) = replace_newlines (fa 0)"
    using generate_restaurants_rows [OF assms(1)] assms(2) by blast
  moreover have "r_Address (hd (restaurants_data t)) = replace_newlines (fb 0)"
    using generate_restaurants_rows [OF run2] assms(2) by blast
  ultimately have "restaurants_data t \<noteq> rs1" using assms(3) by auto
  with run2 t(4) s(1) show ?thesis by blast
qed

theorem restaurants_not_reproducible_witness:
  "generate_restaurants 1 (generate_cities 5) ex_rating_tape (\<lambda>_. 0) (ex_faker ''MG Road'')
     = Inr ([ex_metro_restaurant ''MG Road''], \<lambda>_. 0, \<lambda>_. 0, \<lambda>_. ''x'')
   \<and> generate_restaurants 1 (generate_cities 5) ex_rating_tape (\<lambda>_. 0) (ex_faker ''Park Street'')
     = Inr ([ex_metro_restaurant ''Park Street''], \<lambda>_. 0, \<lambda>_. 0, \<lambda>_. ''x'')
   \<and> ex_metro_restaurant ''Park Street'' \<noteq> ex_metro_restaurant ''MG Road''"
proof -
  have a: "replace_newlines ''MG Road'' = ''MG Road''"
    "replace_newlines ''Park Street'' = ''Park Street''"
    by (simp_all add: replace_newlines_def)
  have r1: "generate_restaurants 1 (generate_cities 5) ex_rating_tape (\<lambda>_. 0) (ex_faker ''MG Road'')
     = Inr ([ex_metro_restaurant ''MG Road''], \<lambda>_. 0, \<lambda>_. 0, \<lambda>_. ''x'')"
    using ex_restaurant_run [of "''MG Road''"] by (simp only: a)
  have r2: "generate_restaurants 1 (generate_cities 5) ex_rating_tape (\<lambda>_. 0)
              (ex_faker ''Park Street'')
     = Inr ([ex_metro_restaurant ''Park Street''], \<lambda>_. 0, \<lambda>_. 0, \<lambda>_. ''x'')"
    using ex_restaurant_run [of "''Park Street''"] by (simp only: a)
  have d: "replace_newlines (ex_faker ''Park Street'' 0) \<noteq> replace_newlines (ex_faker ''MG Road'' 0)"
    by (simp add: ex_faker_def replace_newlines_def)
  from restaurants_not_reproducible [OF r1, where fb = "ex_faker ''Park Street''"] d
  obtain rs2 fb' where
    "generate_restaurants 1 (generate_cities 5) ex_rating_tape (\<lambda>_. 0) (ex_faker ''Park Street'')
       = Inr (rs2, \<lambda>_. 0, \<lambda>_. 0, fb')"
    "rs2 \<noteq> [ex_metro_restaurant ''MG Road'']"
    by auto
  then have "ex_metro_restaurant ''Park Street'' \<noteq> ex_metro_restaurant ''MG Road''"
    using r2 by auto
  with r1 r2 show ?thesis by blast
qed

section \<open>Stage 1: referrals\<close>

lemma same_but_referrer_refl: "same_but_referrer a a"
  by (simp add: same_but_referrer_def)

lemma same_but_referrer_trans:
  "same_but_referrer a b \<Longrightarrow> same_but_referrer b c \<Longrightarrow> same_but_referrer a c"
  by (simp add: same_but_referrer_def)

lemma same_but_referrer_keys:
  assumes "same_but_referrer a b"
  shows "u_UserID a = u_UserID b" "u_SignUpDate a = u_SignUpDate b"
    "u_AcquisitionChannelID a = u_AcquisitionChannelID b"
proof -
  have "u_UserID (a\<lparr>u_ReferredBy := None\<rparr>) = u_UserID (b\<lparr>u_ReferredBy := None\<rparr>)"
    "u_SignUpDate (a\<lparr>u_ReferredBy := None\<rparr>) = u_SignUpDate (b\<lparr>u_ReferredBy := None\<rparr>)"
    "u_AcquisitionChannelID (a\<lparr>u_ReferredBy := None\<rparr>)
       = u_AcquisitionChannelID (b\<lparr>u_ReferredBy := None\<rparr>)"
    using assms by (simp_all only: same_but_referrer_def)
  then show "u_UserID a = u_UserID b" "u_SignUpDate a = u_SignUpDate b"
    "u_AcquisitionChannelID a = u_AcquisitionChannelID b"
    by simp_all
qed

lemma same_table_refl: "list_all2 same_but_referrer xs xs"
  by (simp add: list_all2_refl same_but_referrer_refl)

lemma same_table_trans:
  "list_all2 same_but_referrer xs ys \<Longrightarrow> list_all2 same_but_referrer ys zs
   \<Longrightarrow> list_all2 same_but_referrer xs zs"
  by (rule list_all2_trans [of same_but_referrer same_but_referrer same_but_referrer])
     (auto intro: same_but_referrer_trans)

lemma same_table_update:
  "list_all2 same_but_referrer (xs[idx := (xs ! idx)\<lparr>u_ReferredBy := r\<rparr>]) xs"
proof (unfold list_all2_conv_all_nth, intro conjI allI impI)
  show "length (xs[idx := (xs ! idx)\<lparr>u_ReferredBy := r\<rparr>]) = length xs" by simp
next
  fix i assume "i < length (xs[idx := (xs ! idx)\<lparr>u_ReferredBy := r\<rparr>])"
  then have i: "i < length xs" by simp
  show "same_but_referrer (xs[idx := (xs ! idx)\<lparr>u_ReferredBy := r\<rparr>] ! i) (xs ! i)"
  proof (cases "i = idx")
    case True
    then show ?thesis using i by (simp add: same_but_referrer_def)
  next
    case False
    then show ?thesis by (simp add: same_but_referrer_def)
  qed
qed

lemma same_table_exists:
  assumes "list_all2 same_but_referrer xs ys"
  shows "(\<exists>v \<in> set xs. Q (u_UserID v) (u_SignUpDate v))
         \<longleftrightarrow> (\<exists>v \<in> set ys. Q (u_UserID v) (u_SignUpDate v))"
  using assms
proof (induction xs ys rule: list_all2_induct)
  case Nil
  then show ?case by simp
next
  case (Cons x xs y ys)
  have "u_UserID x = u_UserID y" "u_SignUpDate x = u_SignUpDate y"
    using same_but_referrer_keys [OF Cons.hyps(1)] by simp_all
  then show ?case using Cons.IH by simp
qed

lemma earlier_users_empty:
  "earlier_users users user = []
   \<longleftrightarrow> \<not> (\<exists>v \<in> set users. u_SignUpDate v < u_SignUpDate user \<and> u_UserID v \<noteq> u_UserID user)"
  by (auto simp: earlier_users_def filter_empty_conv)

lemma same_table_earlier:
  assumes "list_all2 same_but_referrer xs ys"
  shows "earlier_users xs user = [] \<longleftrightarrow> earlier_users ys user = []"
  unfolding earlier_users_empty
  using same_table_exists [OF assms,
      of "\<lambda>i d. d < u_SignUpDate user \<and> i \<noteq> u_UserID user"]
  by simp

text \<open>One pass of the loop: nothing happens, or one referral and one back-fill.\<close>

lemma referral_iteration_cases:
  "(earlier_users (ref_users s) user = [] \<and> referral_iteration (idx, user) s = Inr s)
   \<or> (earlier_users (ref_users s) user \<noteq> []
       \<and> (\<exists>referrer amount status g2 n1.
             referrer \<in> set (ref_users s) \<and> u_SignUpDate referrer < u_SignUpDate user
             \<and> u_UserID referrer \<noteq> u_UserID user
             \<and> referral_iteration (idx, user) s
                 = Inr (s\<lparr>ref_users := (ref_users s)[idx := (ref_users s ! idx)\<lparr>u_ReferredBy :=
                                               Some (u_UserID referrer)\<rparr>],
                         referrals_data := referrals_data s @
                           [\<lparr>rf_ReferralID = int (length (referrals_data s)) + 1,
                             rf_ReferrerUserID = u_UserID referrer,
                             rf_ReferredUserID = u_UserID user,
                             rf_ReferralDate = u_SignUpDate user,
                             rf_RewardAmount = amount, rf_RewardStatus = status\<rparr>],
                         ref_rnd := g2, ref_nprnd := n1\<rparr>)))"
proof (cases "earlier_users (ref_users s) user = []")
  case True
  then show ?thesis by (simp add: referral_iteration_def earlier_users_def)
next
  case False
  let ?pot = "earlier_users (ref_users s) user"
  obtain d n1 where dr: "draw (ref_nprnd s) = (d, n1)" by (cases "draw (ref_nprnd s)")
  define referrer where "referrer = ?pot ! (d mod length ?pot)"
  have sm: "sample1 ?pot (ref_nprnd s) = Inr (referrer, n1)"
    using False dr by (simp add: sample1_def referrer_def)
  have "referrer \<in> set ?pot" using sample1_mem [OF sm] .
  then have r: "referrer \<in> set (ref_users s)" "u_SignUpDate referrer < u_SignUpDate user"
    "u_UserID referrer \<noteq> u_UserID user"
    by (simp_all add: earlier_users_def)
  obtain amount g1 where a: "choice [50, 75, 100::int] (ref_rnd s) = Inr (amount, g1)"
    by (simp add: choice_Cons)
  obtain status g2 where
    b: "choice [''Paid'', ''Paid'', ''Paid'', ''Pending''] g1 = Inr (status, g2)"
    by (simp add: choice_Cons)
  have "referral_iteration (idx, user) s
          = Inr (s\<lparr>ref_users := (ref_users s)[idx := (ref_users s ! idx)\<lparr>u_ReferredBy :=
                                               Some (u_UserID referrer)\<rparr>],
                         referrals_data := referrals_data s @
                           [\<lparr>rf_ReferralID = int (length (referrals_data s)) + 1,
                             rf_ReferrerUserID = u_UserID referrer,
                             rf_ReferredUserID = u_UserID user,
                             rf_ReferralDate = u_SignUpDate user,
                             rf_RewardAmount = amount, rf_RewardStatus = status\<rparr>],
                         ref_rnd := g2, ref_nprnd := n1\<rparr>)"
    using False sm a b
    by (simp add: referral_iteration_def earlier_users_def [symmetric] Let_def)
  with False r show ?thesis by blast
qed

lemma referral_loop:
  assumes "distinct (map fst ps)" and "\<forall>p \<in> set ps. fst p < length (ref_users s)"
  shows "\<exists>s' rows. for_each ps referral_iteration s = Inr s'
           \<and> referrals_data s' = referrals_data s @ rows
           \<and> list_all2 same_but_referrer (ref_users s') (ref_users s)
           \<and> list_all2 (referral_ok (ref_users s')) rows
                (filter (\<lambda>(idx, u). earlier_users (ref_users s) u \<noteq> []) ps)
           \<and> (\<forall>i. i \<notin> fst ` set (filter (\<lambda>(idx, u). earlier_users (ref_users s) u \<noteq> []) ps)
                  \<longrightarrow> ref_users s' ! i = ref_users s ! i)
           \<and> map rf_ReferralID rows
               = map int [Suc (length (referrals_data s))
                           ..< Suc (length (referrals_data s) + length rows)]"
  using assms
proof (induction ps arbitrary: s)
  case Nil
  then show ?case by (simp add: same_table_refl)
next
  case (Cons p ps)
  obtain idx user where p: "p = (idx, user)" by (cases p)
  have dist: "distinct (map fst ps)" and fresh: "idx \<notin> fst ` set ps"
    using Cons.prems(1) p by simp_all
  have idx: "idx < length (ref_users s)" using Cons.prems(2) p by simp
  from referral_iteration_cases [of s user idx] show ?case
  proof (elim disjE conjE exE)
    assume e: "earlier_users (ref_users s) user = []"
      and it: "referral_iteration (idx, user) s = Inr s"
    have "\<forall>p \<in> set ps. fst p < length (ref_users s)" using Cons.prems(2) by simp
    from Cons.IH [OF dist this] obtain s' rows where
      r: "for_each ps referral_iteration s = Inr s'"
      "referrals_data s' = referrals_data s @ rows"
      "list_all2 same_but_referrer (ref_users s') (ref_users s)"
      "list_all2 (referral_ok (ref_users s')) rows
                (filter (\<lambda>(idx, u). earlier_users (ref_users s) u \<noteq> []) ps)"
      "\<forall>i. i \<notin> fst ` set (filter (\<lambda>(idx, u). earlier_users (ref_users s) u \<noteq> []) ps)
                  \<longrightarrow> ref_users s' ! i = ref_users s ! i"
      "map rf_ReferralID rows
               = map int [Suc (length (referrals_data s))
                           ..< Suc (length (referrals_data s) + length rows)]"
      by blast
    have "for_each (p # ps) referral_iteration s = Inr s'" using it r(1) p by simp
    moreover have "filter (\<lambda>(idx, u). earlier_users (ref_users s) u \<noteq> []) (p # ps)
                     = filter (\<lambda>(idx, u). earlier_users (ref_users s) u \<noteq> []) ps"
      using e p by simp
    ultimately show ?thesis using r(2-6) by (intro exI [of _ s'] exI [of _ rows]) simp
  next
    fix referrer amount status g2 n1
    assume e: "earlier_users (ref_users s) user \<noteq> []"
      and rin: "referrer \<in> set (ref_users s)"
      and rd: "u_SignUpDate referrer < u_SignUpDate user"
      and rid: "u_UserID referrer \<noteq> u_UserID user"
      and it: "referral_iteration (idx, user) s
                 = Inr (s\<lparr>ref_users := (ref_users s)[idx := (ref_users s ! idx)\<lparr>u_ReferredBy :=
                                               Some (u_UserID referrer)\<rparr>],
                         referrals_data := referrals_data s @
                           [\<lparr>rf_ReferralID = int (length (referrals_data s)) + 1,
                             rf_ReferrerUserID = u_UserID referrer,
                             rf_ReferredUserID = u_UserID user,
                             rf_ReferralDate = u_SignUpDate user,
                             rf_RewardAmount = amount, rf_RewardStatus = status\<rparr>],
                         ref_rnd := g2, ref_nprnd := n1\<rparr>)"
    define users1 where "users1 = (ref_users s)[idx := (ref_users s ! idx)\<lparr>u_ReferredBy :=
                                               Some (u_UserID referrer)\<rparr>]"
    define row where "row = \<lparr>rf_ReferralID = int (length (referrals_data s)) + 1,
                             rf_ReferrerUserID = u_UserID referrer,
                             rf_ReferredUserID = u_UserID user,
                             rf_ReferralDate = u_SignUpDate user,
                             rf_RewardAmount = amount, rf_RewardStatus = status\<rparr>"
    define s1 where "s1 = s\<lparr>ref_users := users1, referrals_data := referrals_data s @ [row],
                         ref_rnd := g2, ref_nprnd := n1\<rparr>"
    have it1: "referral_iteration (idx, user) s = Inr s1"
      using it by (simp add: s1_def users1_def row_def)
    have u1: "ref_users s1 = users1" "referrals_data s1 = referrals_data s @ [row]"
      by (simp_all add: s1_def)
    have len1: "length users1 = length (ref_users s)" by (simp add: users1_def)
    have same1: "list_all2 same_but_referrer users1 (ref_users s)"
      unfolding users1_def by (rule same_table_update)
    have "\<forall>p \<in> set ps. fst p < length (ref_users s1)"
      using Cons.prems(2) by (simp add: u1 len1)
    from Cons.IH [OF dist this] obtain s' rows where
      r: "for_each ps referral_iteration s1 = Inr s'"
      "referrals_data s' = referrals_data s1 @ rows"
      "list_all2 same_but_referrer (ref_users s') (ref_users s1)"
      "list_all2 (referral_ok (ref_users s')) rows
                (filter (\<lambda>(idx, u). earlier_users (ref_users s1) u \<noteq> []) ps)"
      "\<forall>i. i \<notin> fst ` set (filter (\<lambda>(idx, u). earlier_users (ref_users s1) u \<noteq> []) ps)
                  \<longrightarrow> ref_users s' ! i = ref_users s1 ! i"
      "map rf_ReferralID rows
               = map int [Suc (length (referrals_data s1))
                           ..< Suc (length (referrals_data s1) + length rows)]"
      by blast
    have flt: "filter (\<lambda>(idx, u). earlier_users (ref_users s1) u \<noteq> []) ps
                 = filter (\<lambda>(idx, u). earlier_users (ref_users s) u \<noteq> []) ps"
      using same_table_earlier [OF same1] by (simp add: u1)
    have r5: "\<forall>i. i \<notin> fst ` set (filter (\<lambda>(idx, u). earlier_users (ref_users s) u \<noteq> [])
                                        ps)
                  \<longrightarrow> ref_users s' ! i = users1 ! i"
      using r(5) unfolding u1 flt [unfolded u1] .
    have same': "list_all2 same_but_referrer (ref_users s') (ref_users s)"
      using same_table_trans [OF r(3) [unfolded u1] same1] .
    have len': "length (ref_users s') = length (ref_users s)"
      using same' by (rule list_all2_lengthD)
    have "idx \<notin> fst ` set (filter (\<lambda>(idx, u). earlier_users (ref_users s) u \<noteq> []) ps)"
      using fresh by auto
    then have "ref_users s' ! idx = users1 ! idx" using r5 by blast
    then have filled: "u_ReferredBy (ref_users s' ! idx) = Some (u_UserID referrer)"
      using idx by (simp add: users1_def)
    have "\<exists>v \<in> set (ref_users s). u_UserID v = u_UserID referrer
             \<and> u_SignUpDate v < u_SignUpDate user \<and> u_UserID v \<noteq> u_UserID user"
      using rin rd rid by blast
    then have "\<exists>v \<in> set (ref_users s'). u_UserID v = u_UserID referrer
             \<and> u_SignUpDate v < u_SignUpDate user \<and> u_UserID v \<noteq> u_UserID user"
      using same_table_exists [OF same',
          of "\<lambda>i d. i = u_UserID referrer \<and> d < u_SignUpDate user \<and> i \<noteq> u_UserID user"]
      by simp
    then have ok: "referral_ok (ref_users s') row (idx, user)"
      using filled idx len' by (simp add: referral_ok_def row_def)
    have run: "for_each (p # ps) referral_iteration s = Inr s'" using it1 r(1) p by simp
    have data: "referrals_data s' = referrals_data s @ (row # rows)" using r(2) u1 by simp
    have all2: "list_all2 (referral_ok (ref_users s')) (row # rows)
                (filter (\<lambda>(idx, u). earlier_users (ref_users s) u \<noteq> []) (p # ps))"
      using ok r(4) e p flt by simp
    have keep: "\<forall>i. i \<notin> fst ` set (filter (\<lambda>(idx, u). earlier_users (ref_users s) u \<noteq> [])
                                      (p # ps))
                  \<longrightarrow> ref_users s' ! i = ref_users s ! i"
    proof (intro allI impI)
      fix i
      assume "i \<notin> fst ` set (filter (\<lambda>(idx, u). earlier_users (ref_users s) u \<noteq> []) (p # ps))"
      then have ni: "i \<noteq> idx"
        and "i \<notin> fst ` set (filter (\<lambda>(idx, u). earlier_users (ref_users s) u \<noteq> []) ps)"
        using e p by auto
      then have "ref_users s' ! i = users1 ! i" using r5 by blast
      then show "ref_users s' ! i = ref_users s ! i" using ni by (simp add: users1_def)
    qed
    have ids: "map rf_ReferralID (row # rows)
               = map int [Suc (length (referrals_data s))
                           ..< Suc (length (referrals_data s) + length (row # rows))]"
    proof -
      have "[Suc (length (referrals_data s))
               ..< Suc (length (referrals_data s) + length (row # rows))]
            = Suc (length (referrals_data s))
              # [Suc (Suc (length (referrals_data s)))
                   ..< Suc (Suc (length (referrals_data s)) + length rows)]"
        by (subst upt_rec) (simp del: upt_Suc)
      then show ?thesis using r(6) u1 by (simp add: row_def del: upt_Suc)
    qed
    show ?thesis using run data same' all2 keep ids by blast
  qed
qed

lemma users_with_channel_5_spec:
  "distinct (map fst (users_with_channel_5 users_df))
   \<and> (\<forall>p \<in> set (users_with_channel_5 users_df).
         fst p < length users_df \<and> snd p = users_df ! fst p
         \<and> u_AcquisitionChannelID (snd p) = 5)"
proof -
  have "distinct (map fst (enumerate 0 users_df))" by (simp add: map_fst_enumerate)
  then have "distinct (map fst (users_with_channel_5 users_df))"
    unfolding users_with_channel_5_def by (rule distinct_map_filter)
  moreover have "fst p < length users_df \<and> snd p = users_df ! fst p
                 \<and> u_AcquisitionChannelID (snd p) = 5"
    if "p \<in> set (users_with_channel_5 users_df)" for p
    using that by (auto simp: users_with_channel_5_def in_set_enumerate_eq)
  ultimately show ?thesis by blast
qed

lemma ex_referral_run:
  "add_referrals ex_referral_users (\<lambda>_. 0) (\<lambda>_. 0)
     = Inr (ex_referral_users[2 := (ex_user 3 1 200 5)\<lparr>u_ReferredBy := Some 1\<rparr>],
            [ex_referral], \<lambda>_. 0, \<lambda>_. 0)"
  by (simp add: add_referrals_def users_with_channel_5_def referral_iteration_def sample1_def
      choice_Cons draw_def ex_referral_users_def ex_user_def ex_referral_def Let_def)

lemma ex_referred:
  "referred_users ex_referral_users = [(2, ex_user 3 1 200 5)]"
  by (simp add: referred_users_def users_with_channel_5_def earlier_users_def
      ex_referral_users_def ex_user_def)

text \<open>
  Claim C6. \<open>add_referrals\<close> always returns. Its referral rows are, in table order, one for
  each user of channel 5 (the channel named Referral Program) that has a user of another
  id with a strictly earlier signup date. The row carries that user's id and signup date
  and the id of a referrer who is such an earlier user: the comparison of the source is
  \<open><\<close>, so the referrer's signup date is in particular at most the referred user's. The
  user's row of the returned table has \<open>ReferredBy\<close> set to the referrer's id (rows are
  addressed by position, the label index of a table built from a list). The returned
  table differs from the given one in \<open>ReferredBy\<close> only, and not at all in the row of any
  other user: a user of channel 5 with no earlier user gets no referral row and no
  back-fill. Referral ids count from 1.
\<close>

theorem referrals_and_back_fill:
  "\<exists>users' referrals g' n'.
     add_referrals users_df g n = Inr (users', referrals, g', n')
     \<and> list_all2 same_but_referrer users' users_df
     \<and> list_all2 (\<lambda>r p.
            snd p = users_df ! fst p \<and> u_AcquisitionChannelID (snd p) = 5
            \<and> rf_ReferredUserID r = u_UserID (snd p) \<and> rf_ReferralDate r = u_SignUpDate (snd p)
            \<and> (\<exists>referrer \<in> set users'. u_UserID referrer = rf_ReferrerUserID r
                  \<and> u_SignUpDate referrer < u_SignUpDate (snd p)
                  \<and> u_UserID referrer \<noteq> u_UserID (snd p))
            \<and> fst p < length users'
            \<and> u_ReferredBy (users' ! fst p) = Some (rf_ReferrerUserID r))
          referrals (referred_users users_df)
     \<and> (\<forall>idx. idx \<notin> fst ` set (referred_users users_df) \<longrightarrow> users' ! idx = users_df ! idx)
     \<and> map rf_ReferralID referrals = map int [1 ..< Suc (length referrals)]
     \<and> map ch_ChannelName (filter (\<lambda>c. ch_ChannelID c = 5) generate_acquisition_channels)
         = [''Referral Program'']"
proof -
  let ?ps = "users_with_channel_5 users_df"
  let ?s0 = "\<lparr>ref_users = users_df, referrals_data = [], ref_rnd = g, ref_nprnd = n\<rparr>"
  have sp: "distinct (map fst ?ps)"
    and mem: "\<forall>p \<in> set ?ps. fst p < length users_df \<and> snd p = users_df ! fst p
                \<and> u_AcquisitionChannelID (snd p) = 5"
    using users_with_channel_5_spec [of users_df] by blast+
  have "\<forall>p \<in> set ?ps. fst p < length (ref_users ?s0)" using mem by simp
  from referral_loop [OF sp this] obtain s' rows where
    run: "for_each ?ps referral_iteration ?s0 = Inr s'"
    and data: "referrals_data s' = rows"
    and same: "list_all2 same_but_referrer (ref_users s') users_df"
    and all2: "list_all2 (referral_ok (ref_users s')) rows (referred_users users_df)"
    and keep: "\<forall>i. i \<notin> fst ` set (referred_users users_df) \<longrightarrow> ref_users s' ! i = users_df ! i"
    and ids: "map rf_ReferralID rows = map int [Suc 0 ..< Suc (length rows)]"
    by (auto simp: referred_users_def)
  have res: "add_referrals users_df g n = Inr (ref_users s', rows, ref_rnd s', ref_nprnd s')"
    using run data by (simp add: add_referrals_def)
  have big: "list_all2 (\<lambda>r p.
            snd p = users_df ! fst p \<and> u_AcquisitionChannelID (snd p) = 5
            \<and> rf_ReferredUserID r = u_UserID (snd p) \<and> rf_ReferralDate r = u_SignUpDate (snd p)
            \<and> (\<exists>referrer \<in> set (ref_users s'). u_UserID referrer = rf_ReferrerUserID r
                  \<and> u_SignUpDate referrer < u_SignUpDate (snd p)
                  \<and> u_UserID referrer \<noteq> u_UserID (snd p))
            \<and> fst p < length (ref_users s')
            \<and> u_ReferredBy (ref_users s' ! fst p) = Some (rf_ReferrerUserID r))
          rows (referred_users users_df)"
  proof (rule list.rel_mono_strong [OF all2])
    fix r p
    assume "p \<in> set (referred_users users_df)" and ok: "referral_ok (ref_users s') r p"
    then have "p \<in> set ?ps" by (simp add: referred_users_def)
    then have "snd p = users_df ! fst p \<and> u_AcquisitionChannelID (snd p) = 5"
      using mem by blast
    then show "snd p = users_df ! fst p \<and> u_AcquisitionChannelID (snd p) = 5
            \<and> rf_ReferredUserID r = u_UserID (snd p) \<and> rf_ReferralDate r = u_SignUpDate (snd p)
            \<and> (\<exists>referrer \<in> set (ref_users s'). u_UserID referrer = rf_ReferrerUserID r
                  \<and> u_SignUpDate referrer < u_SignUpDate (snd p)
                  \<and> u_UserID referrer \<noteq> u_UserID (snd p))
            \<and> fst p < length (ref_users s')
            \<and> u_ReferredBy (ref_users s' ! fst p) = Some (rf_ReferrerUserID r)"
      using ok by (auto simp: referral_ok_def case_prod_beta)
  qed
  have ch: "map ch_ChannelName (filter (\<lambda>c. ch_ChannelID c = 5)
              generate_acquisition_channels) = [''Referral Program'']"
    by (simp add: generate_acquisition_channels_def)
  have ids1: "map rf_ReferralID rows = map int [1 ..< Suc (length rows)]" using ids by simp
  show ?thesis
    apply (rule exI [of _ "ref_users s'"])
    apply (rule exI [of _ rows])
    apply (rule exI [of _ "ref_rnd s'"])
    apply (rule exI [of _ "ref_nprnd s'"])
    apply (insert res same big keep ids1 ch)
    by (intro conjI; assumption)
qed

theorem referrals_and_back_fill_witness:
  "add_referrals ex_referral_users (\<lambda>_. 0) (\<lambda>_. 0)
     = Inr (ex_referral_users[2 := (ex_user 3 1 200 5)\<lparr>u_ReferredBy := Some 1\<rparr>],
            [ex_referral], \<lambda>_. 0, \<lambda>_. 0)
   \<and> users_with_channel_5 ex_referral_users = [(1, ex_user 2 2 50 5), (2, ex_user 3 1 200 5)]
   \<and> referred_users ex_referral_users = [(2, ex_user 3 1 200 5)]
   \<and> ex_referral_users[2 := (ex_user 3 1 200 5)\<lparr>u_ReferredBy := Some 1\<rparr>] ! 1
       = ex_referral_users ! 1
   \<and> u_ReferredBy (ex_referral_users[2 := (ex_user 3 1 200 5)\<lparr>u_ReferredBy := Some 1\<rparr>] ! 2)
       = Some (rf_ReferrerUserID ex_referral)"
proof -
  let ?out = "ex_referral_users[2 := (ex_user 3 1 200 5)\<lparr>u_ReferredBy := Some 1\<rparr>]"
  from referrals_and_back_fill [of ex_referral_users "\<lambda>_. 0" "\<lambda>_. 0"]
  obtain users' referrals g' n' where
    run: "add_referrals ex_referral_users (\<lambda>_. 0) (\<lambda>_. 0) = Inr (users', referrals, g', n')"
    and all2: "list_all2 (\<lambda>r p.
            snd p = ex_referral_users ! fst p \<and> u_AcquisitionChannelID (snd p) = 5
            \<and> rf_ReferredUserID r = u_UserID (snd p) \<and> rf_ReferralDate r = u_SignUpDate (snd p)
            \<and> (\<exists>referrer \<in> set users'. u_UserID referrer = rf_ReferrerUserID r
                  \<and> u_SignUpDate referrer < u_SignUpDate (snd p)
                  \<and> u_UserID referrer \<noteq> u_UserID (snd p))
            \<and> fst p < length users'
            \<and> u_ReferredBy (users' ! fst p) = Some (rf_ReferrerUserID r))
          referrals (referred_users ex_referral_users)"
    and keep: "\<forall>idx. idx \<notin> fst ` set (referred_users ex_referral_users)
                 \<longrightarrow> users' ! idx = ex_referral_users ! idx"
    by blast
  have u: "users' = ?out" and r: "referrals = [ex_referral]"
    using run ex_referral_run by simp_all
  have "1 \<notin> fst ` set (referred_users ex_referral_users)" by (simp add: ex_referred)
  then have k: "?out ! 1 = ex_referral_users ! 1" using keep u by blast
  have "u_ReferredBy (?out ! 2) = Some (rf_ReferrerUserID ex_referral)"
    by (simp add: ex_referral_def ex_referral_users_def)
  moreover have "users_with_channel_5 ex_referral_users
                   = [(1, ex_user 2 2 50 5), (2, ex_user 3 1 200 5)]"
    by (simp add: users_with_channel_5_def ex_referral_users_def ex_user_def)
  ultimately show ?thesis using ex_referral_run ex_referred k by blast
qed

end
